theory Spec2Isabelle
  imports Complex_Main "HOL-Library.Word" "HOL-Library.Signed_Division" "HOL-Library.Sublist"
    "HOL-Library.Log_Nat"
begin

section \<open>Machine integers of the kernel\<close>

text \<open>
  The C++ type \<open>int\<close> is a 32-bit two's complement word.  Signed comparison is
  \<open><s\<close> on words.  Integer division truncates towards zero; dividing by zero, or
  \<open>INT_MIN\<close> by \<open>-1\<close>, is undefined behaviour in C++ and is the value \<open>None\<close> here.
\<close>

type_synonym int32 = "32 word"

definition int_div :: "int32 \<Rightarrow> int32 \<Rightarrow> int32 option" where
  "int_div a b =
     (if b = 0 \<or> (sint a = - (2 ^ 31) \<and> sint b = - 1) then None
      else Some (word_of_int (sint a sdiv sint b)))"

text \<open>\<open>std::max(a, b)\<close> on \<open>int\<close>: \<open>(a < b) ? b : a\<close>.\<close>

definition std_max :: "int32 \<Rightarrow> int32 \<Rightarrow> int32" where
  "std_max a b = (if a <s b then b else a)"

text \<open>
  A thrown C++ exception is a value: the message of a \<open>yask_exception\<close>
  (\<open>THROW_YASK_EXCEPTION\<close>), or the \<open>std::out_of_range\<close> of \<open>vector::at\<close>.  A function
  that can throw returns \<open>Inl\<close> of the exception or \<open>Inr\<close> of its result.
\<close>

datatype cxx_exception = Yask_exception string | Std_out_of_range

section \<open>Thread budget (\<open>StencilContext::set_region_threads\<close>)\<close>

text \<open>
  The fields of \<open>KernelSettings\<close> read by the thread-budget functions, and the two
  values of the OpenMP runtime they install (\<open>omp_set_num_threads\<close>,
  \<open>omp_set_nested\<close>).
\<close>

record KernelSettings =
  max_threads :: int32
  thread_divisor :: int32
  num_block_threads :: int32

record omp_runtime =
  omp_num_threads :: int32
  omp_nested :: int32

definition omp_set_num_threads :: "int32 \<Rightarrow> omp_runtime \<Rightarrow> omp_runtime" where
  "omp_set_num_threads n rt = rt\<lparr>omp_num_threads := n\<rparr>"

definition omp_set_nested :: "int32 \<Rightarrow> omp_runtime \<Rightarrow> omp_runtime" where
  "omp_set_nested n rt = rt\<lparr>omp_nested := n\<rparr>"

text \<open>
  \<open>set_region_threads\<close> returns the number of threads and the updated runtime;
  it does nothing and returns 0 when \<open>max_threads\<close> is 0.
\<close>

definition set_region_threads :: "KernelSettings \<Rightarrow> omp_runtime \<Rightarrow> (int32 \<times> omp_runtime) option" where
  "set_region_threads opts rt =
     (let mt = max_threads opts in
      if mt = 0 then Some (0, rt)
      else
        case int_div mt (thread_divisor opts) of
          None \<Rightarrow> None
        | Some nt0 \<Rightarrow>
            let nt1 = std_max nt0 1 in
            (case int_div nt1 (num_block_threads opts) of
               None \<Rightarrow> None
             | Some nt2 \<Rightarrow>
                 let nt = std_max nt2 1;
                     rt1 = (if 1 <s num_block_threads opts
                            then omp_set_nested 1 rt else omp_set_nested 0 rt);
                     rt2 = omp_set_num_threads nt rt1
                 in Some (nt, rt2)))"

section \<open>Single-step form of \<open>run_solution\<close>\<close>

text \<open>
  The two-argument \<open>run_solution(first_step_index, last_step_index)\<close> is a virtual
  member function that is only declared in the class; it is a parameter \<open>run2\<close> of the
  model, taking the two step indices and the solution state and either failing with an
  error or returning the new state.  The one-argument overload is defined in the class
  body.
\<close>

type_synonym idx_t = "64 word"

definition run_solution :: "(idx_t \<Rightarrow> idx_t \<Rightarrow> 's \<Rightarrow> 'e + 's) \<Rightarrow> idx_t \<Rightarrow> 's \<Rightarrow> 'e + 's" where
  "run_solution run2 step_index ctx = run2 step_index step_index ctx"

section \<open>Grid lookup (\<open>StencilContext::get_grid\<close>)\<close>

text \<open>
  A grid pointer is a shared pointer: null, or a reference to a grid.  \<open>gridMap\<close> is a
  \<open>std::map\<close> from names to grid pointers.  \<open>get_grid\<close> has no throwing path; its
  result type still carries the error alternative so that this can be stated.
\<close>

datatype 'g ptr = Null | Ptr 'g

record 'g grid_registry =
  gridMap :: "string \<rightharpoonup> 'g ptr"

definition get_grid :: "'g grid_registry \<Rightarrow> string \<Rightarrow> cxx_exception + 'g ptr" where
  "get_grid ctx name =
     (case gridMap ctx name of
        Some p \<Rightarrow> Inr p
      | None \<Rightarrow> Inr Null)"

section \<open>Vector alignment (\<open>realv_align\<close>)\<close>

text \<open>
  A \<open>realv\<close> holds \<open>VLEN\<close> reals in the array \<open>u.r\<close>; it is a list here.  Only
  copies of elements occur, so the element type is a type variable.  An access to
  \<open>u.r[i]\<close> outside \<open>0 \<le> i < VLEN\<close> is undefined behaviour in C++ and the value
  \<open>None\<close> here.
\<close>

definition rd :: "'a list \<Rightarrow> int \<Rightarrow> 'a option" where
  "rd xs i = (if 0 \<le> i \<and> i < int (length xs) then Some (xs ! nat i) else None)"

definition wr :: "'a list \<Rightarrow> int \<Rightarrow> 'a \<Rightarrow> 'a list option" where
  "wr xs i v = (if 0 \<le> i \<and> i < int (length xs) then Some (xs[nat i := v]) else None)"

function align_loop1 :: "int \<Rightarrow> int \<Rightarrow> int \<Rightarrow> 'a list \<Rightarrow> 'a list \<Rightarrow> 'a list option" where
  "align_loop1 VLEN count i tmpb res =
     (if i < VLEN - count then
        (case rd tmpb (i + count) of
           None \<Rightarrow> None
         | Some v \<Rightarrow>
             (case wr res i v of
                None \<Rightarrow> None
              | Some res' \<Rightarrow> align_loop1 VLEN count (i + 1) tmpb res'))
      else Some res)"
  by pat_completeness auto
termination
  by (relation "measure (\<lambda>(VLEN, count, i, tmpb, res). nat (VLEN - count - i))") auto

function align_loop2 :: "int \<Rightarrow> int \<Rightarrow> int \<Rightarrow> 'a list \<Rightarrow> 'a list \<Rightarrow> 'a list option" where
  "align_loop2 VLEN count i tmpa res =
     (if i < VLEN then
        (case rd tmpa (i + count - VLEN) of
           None \<Rightarrow> None
         | Some v \<Rightarrow>
             (case wr res i v of
                None \<Rightarrow> None
              | Some res' \<Rightarrow> align_loop2 VLEN count (i + 1) tmpa res'))
      else Some res)"
  by pat_completeness auto
termination
  by (relation "measure (\<lambda>(VLEN, count, i, tmpa, res). nat (VLEN - i))") auto

declare align_loop1.simps [simp del] align_loop2.simps [simp del]

text \<open>
  The hardware intrinsics, as the Intel Intrinsics Guide documents them.
  \<open>_mm512_alignr_epi32(a, b, imm8)\<close> concatenates \<open>a\<close> and \<open>b\<close> into an
  intermediate result of 32 lanes of 32 bits with \<open>b\<close> in the low half, shifts it right
  by \<open>imm8[3:0]\<close> lanes, and returns the low 16 lanes; \<open>_mm512_alignr_epi64\<close> does the
  same on 8 lanes of 64 bits with the shift \<open>imm8[2:0]\<close>.  Only the low bits of the
  immediate are read: the shift is \<open>imm8 mod 16\<close> and \<open>imm8 mod 8\<close>.  A register is
  the list of its lanes, lane 0 first.
\<close>

definition mm512_alignr_epi32 :: "'l list \<Rightarrow> 'l list \<Rightarrow> int \<Rightarrow> 'l list" where
  "mm512_alignr_epi32 a b imm8 = take 16 (drop (nat (imm8 mod 16)) (b @ a))"

definition mm512_alignr_epi64 :: "'l list \<Rightarrow> 'l list \<Rightarrow> int \<Rightarrow> 'l list" where
  "mm512_alignr_epi64 a b imm8 = take 8 (drop (nat (imm8 mod 8)) (b @ a))"

text \<open>
  \<open>realv_align<count>\<close> has four implementations, selected by the preprocessor: the
  element-wise loops under \<open>NO_INTRINSICS\<close>; the copy through the local array \<open>r2\<close>
  of \<open>2 * VLEN\<close> reals under \<open>USE_INTRIN256\<close>; under \<open>USE_INTRIN512\<close> the intrinsic
  \<open>INAMEI(alignr)\<close>, which is \<open>_mm512_alignr_epi32\<close> for \<open>REAL_BYTES == 4\<close> and
  \<open>_mm512_alignr_epi64\<close> for \<open>REAL_BYTES == 8\<close> (no other value of \<open>REAL_BYTES\<close>
  compiles), applied to the overlay \<open>u.mi\<close> of the elements, whose lanes are the
  elements; and, for \<open>REAL_BYTES == 8\<close> on \<open>ARCH_KNC\<close>, the 32-bit intrinsic with
  twice the count, which is \<open>realv_align_knc\<close> below.  The arguments are references,
  which may alias: memory is a store from addresses to vectors and \<open>res\<close>, \<open>a\<close>, \<open>b\<close>
  are addresses.  The temporaries \<open>tmpa\<close>, \<open>tmpb\<close> and \<open>r2\<close> are copies taken before
  \<open>res\<close> is written, and an intrinsic reads its arguments before its result is
  assigned.
\<close>

datatype realv_impl = NO_INTRINSICS | USE_INTRIN256 | USE_INTRIN512

type_synonym 'a realv_mem = "nat \<Rightarrow> 'a list"

definition realv_align ::
  "realv_impl \<Rightarrow> nat \<Rightarrow> int \<Rightarrow> int \<Rightarrow> 'a realv_mem \<Rightarrow> nat \<Rightarrow> nat \<Rightarrow> nat
     \<Rightarrow> 'a realv_mem option" where
  "realv_align impl REAL_BYTES VLEN count mem res a b =
     (case impl of
        NO_INTRINSICS \<Rightarrow>
          (let tmpa = mem a; tmpb = mem b in
           case align_loop1 VLEN count 0 tmpb (mem res) of
             None \<Rightarrow> None
           | Some r1 \<Rightarrow>
               (case align_loop2 VLEN count (VLEN - count) tmpa r1 of
                  None \<Rightarrow> None
                | Some r2 \<Rightarrow> Some (mem(res := r2))))
      | USE_INTRIN256 \<Rightarrow>
          (let r2 = mem b @ mem a in
           if 0 \<le> count \<and> count + VLEN \<le> int (length r2)
           then Some (mem(res := take (nat VLEN) (drop (nat count) r2)))
           else None)
      | USE_INTRIN512 \<Rightarrow>
          Some (mem(res := (if REAL_BYTES = 4 then mm512_alignr_epi32 (mem a) (mem b) count
                            else mm512_alignr_epi64 (mem a) (mem b) count))))"

text \<open>
  The branch for \<open>REAL_BYTES == 8\<close>, \<open>ARCH_KNC\<close> and \<open>USE_INTRIN512\<close>:
  \<open>_mm512_alignr_epi32(a.u.mi, b.u.mi, count*2)\<close>.  An element of 64 bits is two lanes
  of 32 bits, the low half first, and is a pair here; \<open>epi32_of\<close> is the overlay
  \<open>u.mi\<close> of a vector of elements and \<open>of_epi32\<close> the elements of an overlay.
\<close>

definition epi32_of :: "('l \<times> 'l) list \<Rightarrow> 'l list" where
  "epi32_of xs = concat (map (\<lambda>(lo, hi). [lo, hi]) xs)"

fun of_epi32 :: "'l list \<Rightarrow> ('l \<times> 'l) list" where
  "of_epi32 (lo # hi # ls) = (lo, hi) # of_epi32 ls"
| "of_epi32 ls = []"

definition realv_align_knc ::
  "int \<Rightarrow> ('l \<times> 'l) realv_mem \<Rightarrow> nat \<Rightarrow> nat \<Rightarrow> nat \<Rightarrow> ('l \<times> 'l) realv_mem option" where
  "realv_align_knc count mem res a b =
     Some (mem(res := of_epi32 (mm512_alignr_epi32 (epi32_of (mem a)) (epi32_of (mem b))
                                  (count * 2))))"

section \<open>Aligned and NUMA allocation (\<open>alignedAlloc\<close>, \<open>numaAlloc\<close>)\<close>

text \<open>
  A raw pointer is a 64-bit address; the null pointer is 0 and \<open>MAP_FAILED\<close> is
  \<open>(void *) -1\<close>.  Byte counts (\<open>size_t\<close>) are only compared, never computed with, and
  are natural numbers.
\<close>

type_synonym raw_ptr = "64 word"

definition MAP_FAILED :: raw_ptr where
  "MAP_FAILED = - 1"

text \<open>
  The macros and constants that the two functions use and that are defined in other
  headers are the fields of \<open>alloc_config\<close>: the two alignments, the
  preprocessor conditions that select the code, and the two NUMA constants of the API.
  \<open>makeByteStr\<close> formats a byte count through a \<open>double\<close> and an output stream; the
  formatted string only occurs in exception messages and is a field as well.
\<close>

record alloc_config =
  CACHELINE_BYTES :: nat
  YASK_HUGE_ALIGNMENT :: nat
  have_posix_memalign :: bool
  USE_NUMA :: bool
  USE_NUMA_POLICY_LIB :: bool
  have_MPOL_LOCAL :: bool
  yask_numa_none :: int32
  yask_numa_interleave :: int32
  makeByteStr :: "nat \<Rightarrow> string"

text \<open>
  What the C library and the operating system answer: \<open>posix_memalign\<close> returns an
  error code and the pointer it stored, the others return their result.
\<close>

record alloc_os =
  posix_memalign :: "nat \<Rightarrow> nat \<Rightarrow> int32 \<times> raw_ptr"
  aligned_alloc :: "nat \<Rightarrow> nat \<Rightarrow> raw_ptr"
  numa_available :: int32
  numa_max_node :: int32
  get_mempolicy :: int32
  mmap :: "nat \<Rightarrow> raw_ptr"

datatype mpol = MPOL_PREFERRED | MPOL_INTERLEAVE | MPOL_LOCAL | MPOL_DEFAULT

text \<open>The calls that allocate or bind memory, in the order in which they are made.\<close>

datatype alloc_call =
    Posix_memalign nat nat
  | Aligned_alloc nat nat
  | Numa_set_bind_policy int32
  | Numa_alloc_onnode nat int32
  | Numa_alloc_local nat
  | Mmap nat
  | Mbind raw_ptr nat mpol "64 word"

definition alignedAlloc ::
  "alloc_config \<Rightarrow> alloc_os \<Rightarrow> nat \<Rightarrow> (cxx_exception + raw_ptr) \<times> alloc_call list" where
  "alignedAlloc cfg os nbytes =
     (let def_alignment = CACHELINE_BYTES cfg;
          def_big_alignment = YASK_HUGE_ALIGNMENT cfg;
          align = (if nbytes \<ge> def_big_alignment then def_big_alignment else def_alignment);
          (p, calls) =
            (if have_posix_memalign cfg then
               (let (ret, p0) = posix_memalign os align nbytes
                in (if ret \<noteq> 0 then 0 else p0, [Posix_memalign align nbytes]))
             else (aligned_alloc os align nbytes, [Aligned_alloc align nbytes]))
      in if p = 0
         then (Inl (Yask_exception (''error: cannot allocate '' @ makeByteStr cfg nbytes)), calls)
         else (Inr p, calls))"

text \<open>
  \<open>numaAlloc\<close>.  Under \<open>USE_NUMA_POLICY_LIB\<close> the results of \<open>numa_alloc_onnode\<close> and
  \<open>numa_alloc_local\<close> are not assigned to \<open>p\<close>, which keeps its initial value 0.  The
  node mask of \<open>MPOL_PREFERRED\<close> is \<open>0x1UL << numa_pref\<close>.
\<close>

definition numaAlloc ::
  "alloc_config \<Rightarrow> alloc_os \<Rightarrow> nat \<Rightarrow> int32 \<Rightarrow> (cxx_exception + raw_ptr) \<times> alloc_call list" where
  "numaAlloc cfg os nbytes numa_pref =
     (if numa_pref = yask_numa_none cfg then alignedAlloc cfg os nbytes
      else if \<not> USE_NUMA cfg then
        (Inl (Yask_exception ''Error: explicit NUMA policy allocation is not enabled''), [])
      else
        let p0 = (0 :: raw_ptr);
            (r, calls) =
              (if USE_NUMA_POLICY_LIB cfg then
                 (if numa_available os \<noteq> - 1 then
                    (let calls = [Numa_set_bind_policy 0] @
                           (if 0 \<le>s numa_pref \<and> numa_pref \<le>s numa_max_node os
                            then [Numa_alloc_onnode nbytes numa_pref]
                            else [Numa_alloc_local nbytes])
                     in if unat p0 mod CACHELINE_BYTES cfg \<noteq> 0
                        then (Inl (Yask_exception (''Error: numa_alloc_*('' @ makeByteStr cfg nbytes
                                     @ '') returned unaligned addr '')), calls)
                        else (Inr p0, calls))
                  else (Inl (Yask_exception
                          ''Error: explicit NUMA policy allocation is not available''), []))
               else
                 (if get_mempolicy os = 0 then
                    (let p = mmap os nbytes in
                     if p \<noteq> 0 \<and> p \<noteq> MAP_FAILED then
                       (Inr p,
                        [Mmap nbytes,
                         if 0 \<le>s numa_pref
                         then Mbind p nbytes MPOL_PREFERRED (push_bit (nat (sint numa_pref)) 1)
                         else if numa_pref = yask_numa_interleave cfg
                         then Mbind p nbytes MPOL_INTERLEAVE (- 1)
                         else if have_MPOL_LOCAL cfg
                         then Mbind p nbytes MPOL_LOCAL 0
                         else Mbind p nbytes MPOL_DEFAULT 0])
                     else (Inl (Yask_exception (''Error: anonymous mmap of '' @ makeByteStr cfg nbytes
                                  @ '' failed'')), [Mmap nbytes]))
                  else (Inl (Yask_exception
                          ''Error: explicit NUMA policy allocation is not available''), [])))
        in case r of
             Inl e \<Rightarrow> (Inl e, calls)
           | Inr p \<Rightarrow>
               if p = 0
               then (Inl (Yask_exception (''Error: cannot allocate '' @ makeByteStr cfg nbytes)), calls)
               else (Inr p, calls))"

text \<open>
  The underlying allocation of \<open>alignedAlloc\<close> fails when \<open>posix_memalign\<close> returns a
  non-zero code or stores a null pointer, or when \<open>aligned_alloc\<close> returns null; the
  one of \<open>numaAlloc\<close> under \<open>USE_NUMA\<close> without the policy library fails when \<open>mmap\<close>
  returns null or \<open>MAP_FAILED\<close>.
\<close>

definition aligned_alloc_fails :: "alloc_config \<Rightarrow> alloc_os \<Rightarrow> nat \<Rightarrow> bool" where
  "aligned_alloc_fails cfg os nbytes =
     (let align = (if nbytes \<ge> YASK_HUGE_ALIGNMENT cfg
                   then YASK_HUGE_ALIGNMENT cfg else CACHELINE_BYTES cfg)
      in if have_posix_memalign cfg
         then fst (posix_memalign os align nbytes) \<noteq> 0 \<or> snd (posix_memalign os align nbytes) = 0
         else aligned_alloc os align nbytes = 0)"

definition mmap_fails :: "alloc_os \<Rightarrow> nat \<Rightarrow> bool" where
  "mmap_fails os nbytes = (mmap os nbytes = 0 \<or> mmap os nbytes = MAP_FAILED)"

section \<open>Bounding boxes (\<open>BoundingBox\<close>)\<close>











section \<open>Tolerance check (\<open>within_tolerance\<close>)\<close>

subsection \<open>Binary floating-point numbers\<close>

text \<open>
  The template \<open>within_tolerance<T>\<close> is instantiated with \<open>float\<close> and \<open>double\<close>,
  the binary32 and binary64 formats of IEEE 754, and computes with round to nearest,
  ties to even; each operation is rounded to the format of its operands, an overflow
  gives an infinity, and subnormal numbers are kept.  A finite
  number is \<open>m * 2 ^ e\<close> for integers \<open>m\<close> and \<open>e\<close>; the sign of a zero is not
  observed by any operation used here, and there is one zero.  A format has a precision
  \<open>p\<close> (\<open>|m| < 2 ^ p\<close>) and the least and the greatest exponent \<open>e\<close> of a number in
  this form.
\<close>

datatype fp = Finite int int | PInf | NInf | NaN

record fp_format =
  precision :: nat
  emin :: int
  emax :: int

definition binary32 :: fp_format where
  "binary32 = \<lparr>precision = 24, emin = - 149, emax = 104\<rparr>"

definition binary64 :: fp_format where
  "binary64 = \<lparr>precision = 53, emin = - 1074, emax = 971\<rparr>"

definition fp_valid :: "fp_format \<Rightarrow> fp \<Rightarrow> bool" where
  "fp_valid fmt x =
     (case x of
        Finite m e \<Rightarrow> \<bar>m\<bar> < 2 ^ precision fmt \<and> emin fmt \<le> e \<and> e \<le> emax fmt
      | _ \<Rightarrow> True)"

text \<open>
  Rounding of the exact magnitude \<open>a * 2 ^ e\<close>, \<open>a \<ge> 0\<close>: the exponent is first brought
  down to at most \<open>emax\<close>; then the \<open>k\<close> low bits that do not fit the precision, or lie
  below \<open>emin\<close>, are rounded off to nearest, a tie to the even neighbour; a carry out of
  the precision moves to the exponent.  The result \<open>None\<close> is an overflow, which rounds
  to infinity.
\<close>

definition round_mag :: "fp_format \<Rightarrow> int \<Rightarrow> int \<Rightarrow> (int \<times> int) option" where
  "round_mag fmt a e =
     (let p = precision fmt;
          e0 = min e (emax fmt);
          a0 = a * 2 ^ nat (e - e0);
          k = nat (max 0 (max (bitlen a0 - int p) (emin fmt - e0)));
          q = a0 div 2 ^ k;
          r = a0 mod 2 ^ k;
          q1 = (if 2 * r > 2 ^ k \<or> (2 * r = 2 ^ k \<and> odd q) then q + 1 else q);
          (q2, e2) = (if q1 = 2 ^ p \<and> p > 0 then (2 ^ (p - 1), e0 + int k + 1)
                      else (q1, e0 + int k))
      in if e2 > emax fmt then None else Some (q2, e2))"

definition fp_round :: "fp_format \<Rightarrow> int \<Rightarrow> int \<Rightarrow> fp" where
  "fp_round fmt m e =
     (case round_mag fmt \<bar>m\<bar> e of
        None \<Rightarrow> if m < 0 then NInf else PInf
      | Some (q, e') \<Rightarrow> Finite (if m < 0 then - q else q) e')"

fun fp_abs :: "fp \<Rightarrow> fp" where
  "fp_abs (Finite m e) = Finite \<bar>m\<bar> e"
| "fp_abs PInf = PInf"
| "fp_abs NInf = PInf"
| "fp_abs NaN = NaN"

fun fp_sub :: "fp_format \<Rightarrow> fp \<Rightarrow> fp \<Rightarrow> fp" where
  "fp_sub fmt NaN y = NaN"
| "fp_sub fmt x NaN = NaN"
| "fp_sub fmt (Finite m1 e1) (Finite m2 e2) =
     (let e = min e1 e2
      in fp_round fmt (m1 * 2 ^ nat (e1 - e) - m2 * 2 ^ nat (e2 - e)) e)"
| "fp_sub fmt (Finite m e) PInf = NInf"
| "fp_sub fmt (Finite m e) NInf = PInf"
| "fp_sub fmt PInf PInf = NaN"
| "fp_sub fmt PInf y = PInf"
| "fp_sub fmt NInf NInf = NaN"
| "fp_sub fmt NInf y = NInf"

fun fp_mul :: "fp_format \<Rightarrow> fp \<Rightarrow> fp \<Rightarrow> fp" where
  "fp_mul fmt NaN y = NaN"
| "fp_mul fmt x NaN = NaN"
| "fp_mul fmt (Finite m1 e1) (Finite m2 e2) = fp_round fmt (m1 * m2) (e1 + e2)"
| "fp_mul fmt (Finite m e) PInf = (if m = 0 then NaN else if m < 0 then NInf else PInf)"
| "fp_mul fmt (Finite m e) NInf = (if m = 0 then NaN else if m < 0 then PInf else NInf)"
| "fp_mul fmt PInf (Finite m e) = (if m = 0 then NaN else if m < 0 then NInf else PInf)"
| "fp_mul fmt NInf (Finite m e) = (if m = 0 then NaN else if m < 0 then PInf else NInf)"
| "fp_mul fmt PInf PInf = PInf"
| "fp_mul fmt PInf NInf = NInf"
| "fp_mul fmt NInf PInf = NInf"
| "fp_mul fmt NInf NInf = PInf"

text \<open>The comparison \<open><\<close>: false when an operand is a NaN.\<close>

fun fp_lt :: "fp \<Rightarrow> fp \<Rightarrow> bool" where
  "fp_lt NaN y = False"
| "fp_lt x NaN = False"
| "fp_lt (Finite m1 e1) (Finite m2 e2) =
     (let e = min e1 e2 in m1 * 2 ^ nat (e1 - e) < m2 * 2 ^ nat (e2 - e))"
| "fp_lt (Finite m e) PInf = True"
| "fp_lt (Finite m e) NInf = False"
| "fp_lt PInf y = False"
| "fp_lt NInf NInf = False"
| "fp_lt NInf y = True"

definition fp_gt :: "fp \<Rightarrow> fp \<Rightarrow> bool" where
  "fp_gt x y = fp_lt y x"

definition fp_zero :: fp where
  "fp_zero = Finite 0 0"

definition fp_one :: fp where
  "fp_one = Finite 1 0"

text \<open>The larger operand: \<open>x\<close> when \<open>x > y\<close>, and \<open>y\<close> otherwise.\<close>

definition fp_max :: "fp \<Rightarrow> fp \<Rightarrow> fp" where
  "fp_max x y = (if fp_gt x y then x else y)"

subsection \<open>The check\<close>

text \<open>
  \<open>within_tolerance\<close> for \<open>T\<close> of format \<open>fmt\<close>.  The difference \<open>val - ref\<close> and the
  product \<open>ref * epsilon\<close> are computed and rounded in \<open>T\<close>; \<open>fabs\<close> and the
  conversions between \<open>T\<close> and \<open>double\<close> (\<open>adiff\<close> is a \<open>double\<close>, \<open>1.0\<close> is a
  \<open>double\<close>) are exact, since every number of binary32 is one of binary64.  The
  parameter \<open>epsilon\<close> is overwritten when \<open>fabs(ref) > 1.0\<close>.
\<close>

definition within_tolerance :: "fp_format \<Rightarrow> fp \<Rightarrow> fp \<Rightarrow> fp \<Rightarrow> bool" where
  "within_tolerance fmt val ref epsilon =
     (let adiff = fp_abs (fp_sub fmt val ref);
          epsilon = (if fp_gt (fp_abs ref) fp_one
                     then fp_abs (fp_mul fmt ref epsilon) else epsilon);
          ok = fp_lt adiff epsilon
      in ok)"

text \<open>
  The tolerance of the description, \<open>epsilon * max(|ref|, 1)\<close>, computed in \<open>T\<close>.
\<close>

definition scaled_tolerance :: "fp_format \<Rightarrow> fp \<Rightarrow> fp \<Rightarrow> fp" where
  "scaled_tolerance fmt ref epsilon = fp_mul fmt epsilon (fp_max (fp_abs ref) fp_one)"

text \<open>
  The same inequality with the exact difference and product of the real numbers that
  the arguments denote, for finite arguments.
\<close>

fun fp_real :: "fp \<Rightarrow> real option" where
  "fp_real (Finite m e) =
     Some (if 0 \<le> e then of_int m * 2 ^ nat e else of_int m / 2 ^ nat (- e))"
| "fp_real x = None"

definition exact_tolerance_check :: "fp \<Rightarrow> fp \<Rightarrow> fp \<Rightarrow> bool option" where
  "exact_tolerance_check val ref epsilon =
     (case (fp_real val, fp_real ref, fp_real epsilon) of
        (Some v, Some r, Some e) \<Rightarrow> Some (\<bar>v - r\<bar> < e * max \<bar>r\<bar> 1)
      | _ \<Rightarrow> None)"

section \<open>Statistics (\<open>Stats\<close>, \<open>clear_timers\<close>, \<open>get_stats\<close>)\<close>

text \<open>
  The class \<open>Stats\<close> with its getters.  The counters are \<open>idx_t\<close>; the two times are
  \<open>double\<close> values that are only stored, copied and set to zero, and are real numbers
  here.  The fields \<open>run_time\<close> and \<open>mpi_time\<close> of \<open>Stats\<close> carry the prefix
  \<open>stats_\<close>, since the context has fields of the same names.
\<close>

record Stats =
  npts :: idx_t
  nwrites :: idx_t
  nfpops :: idx_t
  nsteps :: idx_t
  stats_run_time :: real
  stats_mpi_time :: real

definition Stats_init :: Stats where
  "Stats_init = \<lparr>npts = 0, nwrites = 0, nfpops = 0, nsteps = 0,
                  stats_run_time = 0, stats_mpi_time = 0\<rparr>"

definition Stats_clear :: "Stats \<Rightarrow> Stats" where
  "Stats_clear s = s\<lparr>npts := 0, nwrites := 0, nfpops := 0, nsteps := 0,
                     stats_run_time := 0, stats_mpi_time := 0\<rparr>"

definition get_num_elements :: "Stats \<Rightarrow> idx_t" where
  "get_num_elements s = npts s"

definition get_num_writes :: "Stats \<Rightarrow> idx_t" where
  "get_num_writes s = nwrites s"

definition get_est_fp_ops :: "Stats \<Rightarrow> idx_t" where
  "get_est_fp_ops s = nfpops s"

definition get_num_steps_done :: "Stats \<Rightarrow> idx_t" where
  "get_num_steps_done s = nsteps s"

definition get_elapsed_run_secs :: "Stats \<Rightarrow> real" where
  "get_elapsed_run_secs s = stats_run_time s"

text \<open>
  Modelled from the spec: the class \<open>YaskTimer\<close> is not among the source files.  A
  timer holds the seconds elapsed so far; \<open>clear\<close> resets them to zero (``Reset elapsed
  times to zero'' is the comment of \<open>clear_timers\<close>), and \<open>get_elapsed_secs\<close> reads them.
\<close>

record YaskTimer =
  elapsed_secs :: real

definition YaskTimer_clear :: "YaskTimer \<Rightarrow> YaskTimer" where
  "YaskTimer_clear t = t\<lparr>elapsed_secs := 0\<rparr>"

definition get_elapsed_secs :: "YaskTimer \<Rightarrow> real" where
  "get_elapsed_secs t = elapsed_secs t"

text \<open>The fields of \<open>StencilContext\<close> that the statistics read and reset.\<close>

record StencilContext =
  tot_domain_1t :: idx_t
  tot_numWrites_1t :: idx_t
  tot_numFpOps_1t :: idx_t
  run_time :: YaskTimer
  mpi_time :: YaskTimer
  steps_done :: idx_t

definition clear_timers :: "StencilContext \<Rightarrow> StencilContext" where
  "clear_timers ctx =
     (let ctx1 = ctx\<lparr>run_time := YaskTimer_clear (run_time ctx)\<rparr>;
          ctx2 = ctx1\<lparr>mpi_time := YaskTimer_clear (mpi_time ctx1)\<rparr>
      in ctx2\<lparr>steps_done := 0\<rparr>)"

text \<open>
  Modelled from the spec: \<open>StencilContext::get_stats\<close> is declared in the class, with
  the comment ``Get statistics associated with preceding calls to run_solution().  Resets
  all timers and step counters.'', but its definition is not among the source files.  By
  the spec, \<open>get_stats()\<close> returns
  \<open>{num_elements, num_writes, est_fp_ops, num_steps_done, elapsed_run_secs}\<close> and
  ``calling this resets step counters and timers''.  The model fills a new \<open>Stats\<close>
  object from the context (the per-step totals over all ranks, the steps done and the
  two elapsed times), then calls \<open>clear_timers\<close>, and returns the object with the new
  context.  What it prints is left out.
\<close>

definition get_stats :: "StencilContext \<Rightarrow> Stats \<times> StencilContext" where
  "get_stats ctx =
     (let rtime = get_elapsed_secs (run_time ctx);
          mtime = get_elapsed_secs (mpi_time ctx);
          p = Stats_init\<lparr>npts := tot_domain_1t ctx, nwrites := tot_numWrites_1t ctx,
                          nfpops := tot_numFpOps_1t ctx, nsteps := steps_done ctx,
                          stats_run_time := rtime, stats_mpi_time := mtime\<rparr>
      in (p, clear_timers ctx))"

section \<open>Command-line parsing (\<open>CommandLineParser\<close>)\<close>

subsection \<open>Characters, C strings and \<open>strtoll\<close>\<close>

text \<open>
  A \<open>std::string\<close> is a list of bytes and may contain the NUL character; \<open>c_str()\<close>
  gives the C string, which ends at the first NUL.  \<open>isspace\<close> is the one of the C
  locale.
\<close>

definition isspace :: "char \<Rightarrow> bool" where
  "isspace c = (c = CHR '' '' \<or> c = CHR 0x09 \<or> c = CHR 0x0A \<or> c = CHR 0x0B
                \<or> c = CHR 0x0C \<or> c = CHR 0x0D)"

definition c_str :: "string \<Rightarrow> string" where
  "c_str s = takeWhile (\<lambda>c. c \<noteq> CHR 0x00) s"

text \<open>
  \<open>strtoll(nptr, &endptr, 0)\<close> of the C library, on a C string: white space is
  skipped, then an optional sign, then with base 0 the prefix \<open>0x\<close> or \<open>0X\<close> before a
  hexadecimal digit selects base 16, a leading \<open>0\<close> base 8, anything else base 10; the
  longest run of digits of that base is converted.  Without any digit the result is 0
  and \<open>endptr\<close> is \<open>nptr\<close>; a value out of range is \<open>LLONG_MAX\<close> or \<open>LLONG_MIN\<close>.  The
  result is the value and the rest of the string that \<open>endptr\<close> points to.  This is
  the function of C99 and C11, on which C++11 rests; it knows no binary prefix.
\<close>

definition LLONG_MAX :: int where
  "LLONG_MAX = 2 ^ 63 - 1"

definition LLONG_MIN :: int where
  "LLONG_MIN = - (2 ^ 63)"

definition digit_val :: "char \<Rightarrow> nat option" where
  "digit_val c =
     (let n = (of_char c :: nat) in
      if 48 \<le> n \<and> n \<le> 57 then Some (n - 48)
      else if 97 \<le> n \<and> n \<le> 122 then Some (n - 87)
      else if 65 \<le> n \<and> n \<le> 90 then Some (n - 55)
      else None)"

definition is_digit_in :: "nat \<Rightarrow> char \<Rightarrow> bool" where
  "is_digit_in base c = (case digit_val c of Some d \<Rightarrow> d < base | None \<Rightarrow> False)"

definition digit_of :: "char \<Rightarrow> nat" where
  "digit_of c = (case digit_val c of Some d \<Rightarrow> d | None \<Rightarrow> 0)"

definition strip_sign :: "string \<Rightarrow> bool \<times> string" where
  "strip_sign s =
     (case s of
        [] \<Rightarrow> (False, s)
      | c # r \<Rightarrow> if c = CHR ''-'' then (True, r)
                 else if c = CHR ''+'' then (False, r)
                 else (False, s))"

definition hex_prefix :: "string \<Rightarrow> bool" where
  "hex_prefix s =
     (case s of
        c0 # x # h # r \<Rightarrow> c0 = CHR ''0'' \<and> (x = CHR ''x'' \<or> x = CHR ''X'') \<and> is_digit_in 16 h
      | _ \<Rightarrow> False)"

definition detect_base :: "string \<Rightarrow> nat \<times> string" where
  "detect_base s =
     (if hex_prefix s then (16, drop 2 s)
      else if s \<noteq> [] \<and> hd s = CHR ''0'' then (8, s)
      else (10, s))"

definition magnitude :: "nat \<Rightarrow> string \<Rightarrow> int" where
  "magnitude base ds = foldl (\<lambda>acc c. acc * int base + int (digit_of c)) 0 ds"

definition strtoll :: "string \<Rightarrow> int \<times> string" where
  "strtoll nptr =
     (let (neg, s2) = strip_sign (dropWhile isspace nptr);
          (base, s3) = detect_base s2;
          ds = takeWhile (is_digit_in base) s3;
          endptr = dropWhile (is_digit_in base) s3;
          mag = magnitude base ds
      in if ds = [] then (0, nptr)
         else if neg then (if mag > 2 ^ 63 then (LLONG_MIN, endptr) else (- mag, endptr))
         else (if mag > 2 ^ 63 - 1 then (LLONG_MAX, endptr) else (mag, endptr)))"

subsection \<open>Options and the variables they set\<close>

text \<open>
  An option holds a reference (or, for \<open>MultiIdxOption\<close>, a vector of pointers) to the
  variables it sets.  The variables live in a store with one address space per type:
  \<open>bool\<close>, \<open>int\<close> and \<open>idx_t\<close>.  The four option classes are the constructors of
  \<open>OptionBase\<close>, with the option's name and its target.
\<close>

record settings_mem =
  bool_vals :: "nat \<Rightarrow> bool"
  int_vals :: "nat \<Rightarrow> int32"
  idx_vals :: "nat \<Rightarrow> idx_t"

datatype OptionBase =
    BoolOption string nat
  | IntOption string nat
  | IdxOption string nat
  | MultiIdxOption string "nat list"

text \<open>
  \<open>OptionBase::_check_arg\<close>: compares \<open>args.at(argi)\<close> with \<open>"-" + str\<close>; returns
  whether it matches and the new \<open>argi\<close>.  The index \<open>argi\<close> is an \<open>int\<close> that starts
  at 0 and is only incremented; it is a natural number here.
\<close>

definition OptionBase_check_arg :: "string list \<Rightarrow> nat \<Rightarrow> string \<Rightarrow> cxx_exception + bool \<times> nat" where
  "OptionBase_check_arg args argi str =
     (let opt_str = ''-'' @ str in
      if argi \<ge> length args then Inl Std_out_of_range
      else if args ! argi = opt_str then Inr (True, argi + 1)
      else Inr (False, argi))"

text \<open>
  \<open>OptionBase::_idx_val\<close>: the value at \<open>args[argi]\<close>, or an exception whose message
  quotes the option at \<open>args[argi - 1]\<close>.
\<close>

definition OptionBase_idx_val :: "string list \<Rightarrow> nat \<Rightarrow> cxx_exception + idx_t \<times> nat" where
  "OptionBase_idx_val args argi =
     (if argi \<ge> length args \<or> length (args ! argi) = 0 then
        Inl (Yask_exception (''Error: no argument for option '' @ [CHR 0x27]
               @ args ! (argi - 1) @ [CHR 0x27]))
      else
        let nptr = c_str (args ! argi);
            (val, endptr) = strtoll nptr
        in if val = LLONG_MIN \<or> val = LLONG_MAX \<or> endptr \<noteq> [] then
             Inl (Yask_exception (''Error: argument for option '' @ [CHR 0x27]
                    @ args ! (argi - 1) @ [CHR 0x27] @ '' is not an integer''))
           else Inr (word_of_int val, argi + 1))"

text \<open>
  The virtual \<open>check_arg\<close> of the four option classes: whether the option matched, the
  new \<open>argi\<close> and the new store.  \<open>IntOption\<close> casts the value to \<open>int\<close>, which keeps its
  low 32 bits.  The variables are changed in place, so what has been stored before an
  exception is thrown stays stored: an exception comes with the store at the throw.
\<close>

fun check_arg ::
  "OptionBase \<Rightarrow> string list \<Rightarrow> nat \<Rightarrow> settings_mem
     \<Rightarrow> cxx_exception \<times> settings_mem + bool \<times> nat \<times> settings_mem" where
  "check_arg (BoolOption name val) args argi mem =
     (case OptionBase_check_arg args argi name of
        Inl e \<Rightarrow> Inl (e, mem)
      | Inr (True, argi1) \<Rightarrow> Inr (True, argi1, mem\<lparr>bool_vals := (bool_vals mem)(val := True)\<rparr>)
      | Inr (False, argi1) \<Rightarrow>
          (let false_name = ''no-'' @ name in
           case OptionBase_check_arg args argi1 false_name of
             Inl e \<Rightarrow> Inl (e, mem)
           | Inr (True, argi2) \<Rightarrow>
               Inr (True, argi2, mem\<lparr>bool_vals := (bool_vals mem)(val := False)\<rparr>)
           | Inr (False, argi2) \<Rightarrow> Inr (False, argi2, mem)))"
| "check_arg (IntOption name val) args argi mem =
     (case OptionBase_check_arg args argi name of
        Inl e \<Rightarrow> Inl (e, mem)
      | Inr (True, argi1) \<Rightarrow>
          (case OptionBase_idx_val args argi1 of
             Inl e \<Rightarrow> Inl (e, mem)
           | Inr (v, argi2) \<Rightarrow>
               Inr (True, argi2, mem\<lparr>int_vals := (int_vals mem)(val := ucast v)\<rparr>))
      | Inr (False, argi1) \<Rightarrow> Inr (False, argi1, mem))"
| "check_arg (IdxOption name val) args argi mem =
     (case OptionBase_check_arg args argi name of
        Inl e \<Rightarrow> Inl (e, mem)
      | Inr (True, argi1) \<Rightarrow>
          (case OptionBase_idx_val args argi1 of
             Inl e \<Rightarrow> Inl (e, mem)
           | Inr (v, argi2) \<Rightarrow>
               Inr (True, argi2, mem\<lparr>idx_vals := (idx_vals mem)(val := v)\<rparr>))
      | Inr (False, argi1) \<Rightarrow> Inr (False, argi1, mem))"
| "check_arg (MultiIdxOption name vals) args argi mem =
     (case OptionBase_check_arg args argi name of
        Inl e \<Rightarrow> Inl (e, mem)
      | Inr (True, argi1) \<Rightarrow>
          (case OptionBase_idx_val args argi1 of
             Inl e \<Rightarrow> Inl (e, mem)
           | Inr (v, argi2) \<Rightarrow>
               Inr (True, argi2,
                    fold (\<lambda>p m. m\<lparr>idx_vals := (idx_vals m)(p := v)\<rparr>) vals mem))
      | Inr (False, argi1) \<Rightarrow> Inr (False, argi1, mem))"

subsection \<open>\<open>parse_args\<close> and \<open>set_args\<close>\<close>

text \<open>
  The registered options \<open>_opts\<close> are a map from strings to options, iterated in the
  order of its keys; here the list of its entries in that order.  The class declaration
  and the functions that register options are not among the source files, so the list is
  a parameter.  The inner loop of \<open>parse_args\<close> asks each option in turn and stops at the
  first that matches.
\<close>

type_synonym registered_opts = "(string \<times> OptionBase) list"

fun opts_loop ::
  "registered_opts \<Rightarrow> string list \<Rightarrow> nat \<Rightarrow> settings_mem
     \<Rightarrow> cxx_exception \<times> settings_mem + bool \<times> nat \<times> settings_mem" where
  "opts_loop [] args argi mem = Inr (False, argi, mem)"
| "opts_loop (oi # ois) args argi mem =
     (case check_arg (snd oi) args argi mem of
        Inl e \<Rightarrow> Inl e
      | Inr (True, argi1, mem1) \<Rightarrow> Inr (True, argi1, mem1)
      | Inr (False, argi1, mem1) \<Rightarrow> opts_loop ois args argi1 mem1)"

text \<open>
  The outer loop of \<open>parse_args\<close>: a token that no option matches is appended to
  \<open>non_args\<close>; at the end the unused tokens replace \<open>args\<close>.  The program name is
  not used.
\<close>

function parse_loop ::
  "registered_opts \<Rightarrow> string list \<Rightarrow> nat \<Rightarrow> settings_mem \<Rightarrow> string list
     \<Rightarrow> cxx_exception \<times> settings_mem + settings_mem \<times> string list" where
  "parse_loop opts args argi mem non_args =
     (if argi < length args then
        (case opts_loop opts args argi mem of
           Inl e \<Rightarrow> Inl e
         | Inr (matched, argi1, mem1) \<Rightarrow>
             if \<not> matched
             then parse_loop opts args (argi1 + 1) mem1 (non_args @ [args ! argi1])
             else parse_loop opts args argi1 mem1 non_args)
      else Inr (mem, non_args))"
  by pat_completeness auto
termination
proof (relation "measure (\<lambda>(opts, args, argi, mem, non_args). length args - argi)")
  have c: "OptionBase_check_arg args argi str = Inr (m, a) \<Longrightarrow> argi \<le> a \<and> (m \<longrightarrow> argi < a)"
    for args argi str m a
    by (auto simp: OptionBase_check_arg_def Let_def split: if_splits)
  have v: "OptionBase_idx_val args argi = Inr (x, a) \<Longrightarrow> argi \<le> a"
    for args argi x a
    by (auto simp: OptionBase_idx_val_def Let_def split: if_splits prod.splits)
  have k: "check_arg opt args argi mem = Inr (m, a, mem1) \<Longrightarrow> argi \<le> a"
    for opt args argi mem m a mem1
    by (cases opt)
       (auto simp: Let_def split: sum.splits bool.splits prod.splits dest!: c v)
  have l: "opts_loop opts args argi mem = Inr (m, a, mem1) \<Longrightarrow> argi \<le> a"
    for opts args argi mem m a mem1
  proof (induction opts arbitrary: argi mem)
    case Nil
    then show ?case by simp
  next
    case (Cons oi ois)
    then show ?case
      by (fastforce split: sum.splits bool.splits prod.splits dest: k)
  qed
  have k1: "check_arg opt args argi mem = Inr (True, a, mem1) \<Longrightarrow> argi < a"
    for opt args argi mem a mem1
    by (cases opt)
       (auto simp: Let_def split: sum.splits bool.splits prod.splits dest!: c v)
  have l1: "opts_loop opts args argi mem = Inr (True, a, mem1) \<Longrightarrow> argi < a"
    for opts args argi mem a mem1
  proof (induction opts arbitrary: argi mem)
    case Nil
    then show ?case by simp
  next
    case (Cons oi ois)
    show ?case
    proof (cases "check_arg (snd oi) args argi mem")
      case (Inl e)
      then show ?thesis using Cons.prems by simp
    next
      case (Inr r)
      obtain m a' mem' where r: "r = (m, a', mem')" by (cases r)
      show ?thesis
      proof (cases m)
        case True
        then show ?thesis using Cons.prems Inr r k1 [of "snd oi" args argi mem] by simp
      next
        case False
        then have "opts_loop ois args a' mem' = Inr (True, a, mem1)"
          using Cons.prems Inr r by simp
        then have "a' < a" by (rule Cons.IH)
        moreover have "argi \<le> a'" using Inr r k by blast
        ultimately show ?thesis by simp
      qed
    qed
  qed
  show "wf (measure (\<lambda>(opts, args, argi, mem, non_args). length args - argi))"
    by simp
  show "((opts, args, argi1 + 1, mem1, non_args @ [args ! argi1]), opts, args, argi, mem, non_args)
          \<in> measure (\<lambda>(opts, args, argi, mem, non_args). length args - argi)"
    if "argi < length args" and "opts_loop opts args argi mem = Inr x"
      and "(matched, y) = x" and "(argi1, mem1) = y" and "\<not> matched"
    for opts args argi mem non_args x matched y argi1 mem1
    using that l [of opts args argi mem matched argi1 mem1] by auto
  show "((opts, args, argi1, mem1, non_args), opts, args, argi, mem, non_args)
          \<in> measure (\<lambda>(opts, args, argi, mem, non_args). length args - argi)"
    if "argi < length args" and "opts_loop opts args argi mem = Inr x"
      and "(matched, y) = x" and "(argi1, mem1) = y" and "\<not> \<not> matched"
    for opts args argi mem non_args x matched y argi1 mem1
    using that l1 [of opts args argi mem argi1 mem1] by auto
qed

declare parse_loop.simps [simp del]

definition parse_args ::
  "registered_opts \<Rightarrow> string list \<Rightarrow> settings_mem
     \<Rightarrow> cxx_exception \<times> settings_mem + settings_mem \<times> string list" where
  "parse_args opts args mem = parse_loop opts args 0 mem []"

text \<open>
  \<open>set_args\<close>: the tokens of a string are appended to \<open>args\<close>.  White space outside
  quotes ends a token, a double quote starts or ends a quoted part, and an empty token
  is never added.
\<close>

fun set_args_loop :: "string \<Rightarrow> string \<Rightarrow> bool \<Rightarrow> string list \<Rightarrow> string \<times> bool \<times> string list" where
  "set_args_loop [] tmp in_quotes args = (tmp, in_quotes, args)"
| "set_args_loop (c # cs) tmp in_quotes args =
     (if isspace c then
        (if in_quotes then set_args_loop cs (tmp @ [c]) in_quotes args
         else set_args_loop cs [] in_quotes (if length tmp \<noteq> 0 then args @ [tmp] else args))
      else if c = CHR 0x22 then
        (if in_quotes
         then set_args_loop cs [] False (if length tmp \<noteq> 0 then args @ [tmp] else args)
         else set_args_loop cs tmp True args)
      else set_args_loop cs (tmp @ [c]) in_quotes args)"

definition set_args :: "string \<Rightarrow> string list \<Rightarrow> string list" where
  "set_args arg_string args =
     (let (tmp, in_quotes, args1) = set_args_loop arg_string [] False args
      in if length tmp \<noteq> 0 then args1 @ [tmp] else args1)"

subsection \<open>\<open>apply_command_line_options\<close>\<close>

text \<open>
  Modelled from the spec: \<open>StencilContext::apply_command_line_options\<close> is declared in
  the class, but its definition and the registration of the options are not among the
  source files.  By the spec it takes the argument string, applies the recognized
  options to the settings and returns the unused arguments as a string, ``unrecognized
  options are returned unmodified''; in the scenario S6 the two unused tokens \<open>-foo\<close>
  and \<open>bar\<close> come back as \<open>"-foo bar"\<close>.  The model tokenizes the string with
  \<open>set_args\<close>, parses the tokens with \<open>parse_args\<close> against the registered options, and
  joins the unused tokens with single spaces.
\<close>

fun join_args :: "string list \<Rightarrow> string" where
  "join_args [] = []"
| "join_args [r] = r"
| "join_args (r # rs) = r @ '' '' @ join_args rs"

definition apply_command_line_options ::
  "registered_opts \<Rightarrow> settings_mem \<Rightarrow> string
     \<Rightarrow> cxx_exception \<times> settings_mem + settings_mem \<times> string" where
  "apply_command_line_options opts mem args =
     (let argsv = set_args args [] in
      case parse_args opts argsv mem of
        Inl e \<Rightarrow> Inl e
      | Inr (mem1, unused) \<Rightarrow> Inr (mem1, join_args unused))"

subsection \<open>What the parser is to do, in the words of its description\<close>

text \<open>
  A token matches an option when it is \<open>-\<close> followed by the option's name, or, for a
  boolean option, \<open>-no-\<close> followed by the name.  The option that a token selects is the
  first registered one that it matches.  The integer-valued options take a value token.
  \<open>unused_tokens\<close> follows the description of \<open>parse_args\<close>: a token that selects an
  option is consumed, together with the next token if the option takes a value; every
  other token is kept, in order.
\<close>

fun matches :: "OptionBase \<Rightarrow> string \<Rightarrow> bool" where
  "matches (BoolOption name val) tok = (tok = ''-'' @ name \<or> tok = ''-no-'' @ name)"
| "matches (IntOption name val) tok = (tok = ''-'' @ name)"
| "matches (IdxOption name val) tok = (tok = ''-'' @ name)"
| "matches (MultiIdxOption name vals) tok = (tok = ''-'' @ name)"

definition selected_option :: "registered_opts \<Rightarrow> string \<Rightarrow> OptionBase option" where
  "selected_option opts tok = find (\<lambda>opt. matches opt tok) (map snd opts)"

fun takes_value :: "OptionBase \<Rightarrow> bool" where
  "takes_value (BoolOption name val) = False"
| "takes_value (IntOption name val) = True"
| "takes_value (IdxOption name val) = True"
| "takes_value (MultiIdxOption name vals) = True"

fun unused_tokens :: "registered_opts \<Rightarrow> string list \<Rightarrow> string list" where
  "unused_tokens opts [] = []"
| "unused_tokens opts (tok # toks) =
     (case selected_option opts tok of
        None \<Rightarrow> tok # unused_tokens opts toks
      | Some opt \<Rightarrow>
          if takes_value opt then unused_tokens opts (tl toks)
          else unused_tokens opts toks)"

text \<open>What an integer-valued option stores once its value has been read.\<close>

fun store_value :: "OptionBase \<Rightarrow> idx_t \<Rightarrow> settings_mem \<Rightarrow> settings_mem" where
  "store_value (BoolOption name val) v mem = mem"
| "store_value (IntOption name val) v mem = mem\<lparr>int_vals := (int_vals mem)(val := ucast v)\<rparr>"
| "store_value (IdxOption name val) v mem = mem\<lparr>idx_vals := (idx_vals mem)(val := v)\<rparr>"
| "store_value (MultiIdxOption name vals) v mem =
     fold (\<lambda>p m. m\<lparr>idx_vals := (idx_vals m)(p := v)\<rparr>) vals mem"

text \<open>What a boolean option stores for the token that matched it.\<close>

fun store_flag :: "OptionBase \<Rightarrow> string \<Rightarrow> settings_mem \<Rightarrow> settings_mem" where
  "store_flag (BoolOption name val) tok mem =
     mem\<lparr>bool_vals := (bool_vals mem)(val := (tok = ''-'' @ name))\<rparr>"
| "store_flag (IntOption name val) tok mem = mem"
| "store_flag (IdxOption name val) tok mem = mem"
| "store_flag (MultiIdxOption name vals) tok mem = mem"

text \<open>A store in which every variable is zero or false.\<close>

definition settings_mem_init :: settings_mem where
  "settings_mem_init = \<lparr>bool_vals = (\<lambda>p. False), int_vals = (\<lambda>p. 0), idx_vals = (\<lambda>p. 0)\<rparr>"

text \<open>
  A token is parseable as an integer when, after optional white space and an optional
  sign, it is a decimal literal (digits not starting with 0), an octal literal (octal
  digits starting with 0), or a hexadecimal literal (\<open>0x\<close> or \<open>0X\<close> and at least one
  hexadecimal digit), and nothing else.
\<close>

definition is_integer_literal :: "string \<Rightarrow> bool" where
  "is_integer_literal s =
     (let body = snd (strip_sign (dropWhile isspace s)) in
      body \<noteq> [] \<and>
      ((hd body \<noteq> CHR ''0'' \<and> list_all (is_digit_in 10) body)
       \<or> (hd body = CHR ''0'' \<and> list_all (is_digit_in 8) body)
       \<or> (\<exists>x \<in> {CHR ''x'', CHR ''X''}.
             take 2 body = [CHR ''0'', x] \<and> drop 2 body \<noteq> []
             \<and> list_all (is_digit_in 16) (drop 2 body))))"

section \<open>Theorems\<close>

lemma sint_pos_32: "0 <s (a :: int32) \<Longrightarrow> 0 < sint a \<and> sint a < 2 ^ 31"
  using sint_lt [of a] by (simp add: word_sless_alt)

lemma sint_word_of_int_32:
  assumes "- (2 ^ 31) \<le> k" and "k < 2 ^ 31"
  shows "sint (word_of_int k :: int32) = k"
proof -
  have "(k + 2 ^ 31) mod 2 ^ 32 = k + 2 ^ 31"
    using assms by (intro mod_pos_pos_trivial) auto
  then show ?thesis by (simp add: int_word_sint)
qed

lemma int_div_pos:
  assumes "0 < sint (a :: int32)" and "0 < sint (b :: int32)"
  shows "\<exists>q. int_div a b = Some q \<and> sint q = sint a div sint b"
proof -
  have b0: "b \<noteq> 0" using assms(2) by auto
  have bm: "sint b \<noteq> - 1" using assms(2) by simp
  have sd: "sint a sdiv sint b = sint a div sint b"
    using assms by (simp add: signed_divide_int_def sgn_if)
  have lo: "0 \<le> sint a div sint b"
    using assms by (simp add: pos_imp_zdiv_nonneg_iff)
  have "sint a div sint b \<le> sint a"
    using assms by (simp add: int_div_le_self)
  moreover have "sint a < 2 ^ 31" using sint_lt [of a] by simp
  ultimately have hi: "sint a div sint b < 2 ^ 31" by linarith
  have "sint (word_of_int (sint a div sint b) :: int32) = sint a div sint b"
    using lo hi by (intro sint_word_of_int_32) auto
  then show ?thesis using b0 bm sd by (simp add: int_div_def)
qed

lemma floor_div_div:
  "\<lfloor>real_of_int m / real_of_int d / real_of_int b\<rfloor> = m div (d * b)"
proof -
  have "real_of_int m / real_of_int d / real_of_int b = real_of_int m / real_of_int (d * b)"
    by simp
  then show ?thesis by (simp only: floor_divide_of_int_eq)
qed

lemma sint_std_max_1: "sint (std_max a 1) = max (sint a) 1"
  by (simp add: std_max_def word_sless_alt max_def)

text \<open>
  C2.  For positive \<open>max_threads\<close>, \<open>thread_divisor\<close> and \<open>num_block_threads\<close>,
  \<open>set_region_threads\<close> returns, and installs as the OpenMP thread count, the value
  \<open>floor (max_threads / thread_divisor / num_block_threads)\<close> with a minimum of 1.
\<close>

theorem set_region_threads_formula:
  assumes "0 <s max_threads opts" and "0 <s thread_divisor opts"
    and "0 <s num_block_threads opts"
  shows "\<exists>nt rt'. set_region_threads opts rt = Some (nt, rt')
           \<and> omp_num_threads rt' = nt
           \<and> sint nt = max 1 \<lfloor>real_of_int (sint (max_threads opts))
                               / real_of_int (sint (thread_divisor opts))
                               / real_of_int (sint (num_block_threads opts))\<rfloor>"
proof -
  let ?m = "sint (max_threads opts)" and ?d = "sint (thread_divisor opts)"
    and ?b = "sint (num_block_threads opts)"
  have m: "0 < ?m" and d: "0 < ?d" and b: "0 < ?b"
    using assms sint_pos_32 by blast+
  have mt0: "max_threads opts \<noteq> 0" using m by auto
  obtain nt0 where n0: "int_div (max_threads opts) (thread_divisor opts) = Some nt0"
    and s0: "sint nt0 = ?m div ?d"
    using int_div_pos [OF m d] by blast
  let ?nt1 = "std_max nt0 1"
  have s1: "sint ?nt1 = max (?m div ?d) 1" by (simp add: sint_std_max_1 s0)
  have p1: "0 < sint ?nt1" by (simp add: s1)
  obtain nt2 where n2: "int_div ?nt1 (num_block_threads opts) = Some nt2"
    and s2: "sint nt2 = sint ?nt1 div ?b"
    using int_div_pos [OF p1 b] by blast
  let ?nt = "std_max nt2 1"
  have s3: "sint ?nt = max (max (?m div ?d) 1 div ?b) 1"
    by (simp add: sint_std_max_1 s2 s0)
  have fl: "\<lfloor>real_of_int ?m / real_of_int ?d / real_of_int ?b\<rfloor> = ?m div (?d * ?b)"
    by (rule floor_div_div)
  have dd: "?m div (?d * ?b) = ?m div ?d div ?b"
    using b by (simp add: zdiv_zmult2_eq)
  have nn: "0 \<le> ?m div ?d" using m d by (simp add: pos_imp_zdiv_nonneg_iff)
  have key: "max (max (?m div ?d) 1 div ?b) 1 = max 1 (?m div ?d div ?b)"
  proof (cases "?m div ?d = 0")
    case True
    have "(1::int) div ?b \<le> 1" by (simp add: int_div_le_self)
    moreover have "0 \<le> (1::int) div ?b" using b by (simp add: pos_imp_zdiv_nonneg_iff)
    ultimately show ?thesis using True by (simp add: max_def)
  next
    case False
    then have "max (?m div ?d) 1 = ?m div ?d" using nn by simp
    then show ?thesis by (simp add: max.commute)
  qed
  have "set_region_threads opts rt
          = Some (?nt, omp_set_num_threads ?nt
                   (if 1 <s num_block_threads opts
                    then omp_set_nested 1 rt else omp_set_nested 0 rt))"
    using mt0 n0 n2 by (simp add: set_region_threads_def Let_def)
  moreover have "omp_num_threads (omp_set_num_threads ?nt
                   (if 1 <s num_block_threads opts
                    then omp_set_nested 1 rt else omp_set_nested 0 rt)) = ?nt"
    by (simp add: omp_set_num_threads_def)
  moreover have "sint ?nt = max 1 \<lfloor>real_of_int ?m / real_of_int ?d / real_of_int ?b\<rfloor>"
    using s3 key fl dd by simp
  ultimately show ?thesis by blast
qed

theorem set_region_threads_formula_witness:
  "0 <s max_threads \<lparr>max_threads = 8, thread_divisor = 2, num_block_threads = 3\<rparr>
   \<and> 0 <s thread_divisor \<lparr>max_threads = 8, thread_divisor = 2, num_block_threads = 3\<rparr>
   \<and> 0 <s num_block_threads \<lparr>max_threads = 8, thread_divisor = 2, num_block_threads = 3\<rparr>
   \<and> (\<exists>nt rt'. set_region_threads
              \<lparr>max_threads = 8, thread_divisor = 2, num_block_threads = 3\<rparr>
              \<lparr>omp_num_threads = 0, omp_nested = 0\<rparr> = Some (nt, rt')
          \<and> omp_num_threads rt' = nt \<and> sint nt = 1)"
proof -
  let ?o = "\<lparr>max_threads = 8, thread_divisor = 2, num_block_threads = 3\<rparr>"
  have h1: "0 <s max_threads ?o" by (simp add: word_sless_alt)
  have h2: "0 <s thread_divisor ?o" by (simp add: word_sless_alt)
  have h3: "0 <s num_block_threads ?o" by (simp add: word_sless_alt)
  show ?thesis
    using h1 h2 h3
      set_region_threads_formula [OF h1 h2 h3, of "\<lparr>omp_num_threads = 0, omp_nested = 0\<rparr>"]
    by simp
qed

text \<open>
  C7.  For every step index and every solution state, the one-argument
  \<open>run_solution\<close> performs exactly the computation of the two-argument form with
  first and last step both equal to that index: the same new state or the same error.
\<close>

theorem run_solution_single_step:
  "run_solution run2 s ctx = run2 s s ctx"
  by (simp add: run_solution_def)

text \<open>
  C10.  \<open>get_grid\<close> never raises an error: for a name with no entry in the grid map
  it returns the null pointer, and for a registered name it returns the pointer stored
  under that name.
\<close>

theorem get_grid_total:
  "get_grid ctx name = Inr (case gridMap ctx name of None \<Rightarrow> Null | Some p \<Rightarrow> p)"
  by (simp add: get_grid_def split: option.splits)

lemma align_loop1_result:
  assumes "0 \<le> i" "0 \<le> count" "length res = nat VLEN" "length tmpb = nat VLEN"
  shows "\<exists>r. align_loop1 VLEN count i tmpb res = Some r \<and> length r = nat VLEN
           \<and> (\<forall>k. 0 \<le> k \<and> k < VLEN \<longrightarrow>
                 r ! nat k = (if i \<le> k \<and> k < VLEN - count then tmpb ! nat (k + count)
                              else res ! nat k))"
  using assms
proof (induction VLEN count i tmpb res rule: align_loop1.induct)
  case (1 VLEN count i tmpb res)
  show ?case
  proof (cases "i < VLEN - count")
    case False
    then show ?thesis using "1.prems" by (subst align_loop1.simps) auto
  next
    case True
    have r: "rd tmpb (i + count) = Some (tmpb ! nat (i + count))"
      using True "1.prems" by (simp add: rd_def)
    have w: "wr res i (tmpb ! nat (i + count)) = Some (res[nat i := tmpb ! nat (i + count)])"
      using True "1.prems" by (simp add: wr_def)
    from "1.IH" [OF True r w] "1.prems"
    obtain r' where r': "align_loop1 VLEN count (i + 1) tmpb (res[nat i := tmpb ! nat (i + count)]) = Some r'"
      "length r' = nat VLEN"
      "\<forall>k. 0 \<le> k \<and> k < VLEN \<longrightarrow>
                 r' ! nat k = (if i + 1 \<le> k \<and> k < VLEN - count then tmpb ! nat (k + count)
                              else res[nat i := tmpb ! nat (i + count)] ! nat k)"
      by auto
    have "align_loop1 VLEN count i tmpb res = Some r'"
      using True r w r'(1) by (subst align_loop1.simps) simp
    moreover have "\<forall>k. 0 \<le> k \<and> k < VLEN \<longrightarrow>
                 r' ! nat k = (if i \<le> k \<and> k < VLEN - count then tmpb ! nat (k + count)
                              else res ! nat k)"
    proof (intro allI impI)
      fix k assume k: "0 \<le> k \<and> k < VLEN"
      show "r' ! nat k = (if i \<le> k \<and> k < VLEN - count then tmpb ! nat (k + count)
                              else res ! nat k)"
      proof (cases "k = i")
        case True
        then show ?thesis using r'(3) k "1.prems" \<open>i < VLEN - count\<close> by simp
      next
        case False
        then have "nat i \<noteq> nat k" using k "1.prems" by auto
        then show ?thesis using r'(3) k False by auto
      qed
    qed
    ultimately show ?thesis using r'(2) by blast
  qed
qed


lemma align_loop2_result:
  assumes "0 \<le> i" "VLEN - count \<le> i" "count \<le> VLEN"
    "length res = nat VLEN" "length tmpa = nat VLEN"
  shows "\<exists>r. align_loop2 VLEN count i tmpa res = Some r \<and> length r = nat VLEN
           \<and> (\<forall>k. 0 \<le> k \<and> k < VLEN \<longrightarrow>
                 r ! nat k = (if i \<le> k then tmpa ! nat (k + count - VLEN)
                              else res ! nat k))"
  using assms
proof (induction VLEN count i tmpa res rule: align_loop2.induct)
  case (1 VLEN count i tmpa res)
  show ?case
  proof (cases "i < VLEN")
    case False
    then show ?thesis using "1.prems" by (subst align_loop2.simps) auto
  next
    case True
    let ?v = "tmpa ! nat (i + count - VLEN)"
    have r: "rd tmpa (i + count - VLEN) = Some ?v"
      using True "1.prems" by (simp add: rd_def)
    have w: "wr res i ?v = Some (res[nat i := ?v])"
      using True "1.prems" by (simp add: wr_def)
    from "1.IH" [OF True r w] "1.prems"
    obtain r' where r': "align_loop2 VLEN count (i + 1) tmpa (res[nat i := ?v]) = Some r'"
      "length r' = nat VLEN"
      "\<forall>k. 0 \<le> k \<and> k < VLEN \<longrightarrow>
                 r' ! nat k = (if i + 1 \<le> k then tmpa ! nat (k + count - VLEN)
                              else res[nat i := ?v] ! nat k)"
      by auto
    have "align_loop2 VLEN count i tmpa res = Some r'"
      using True r w r'(1) by (subst align_loop2.simps) simp
    moreover have "\<forall>k. 0 \<le> k \<and> k < VLEN \<longrightarrow>
                 r' ! nat k = (if i \<le> k then tmpa ! nat (k + count - VLEN)
                              else res ! nat k)"
    proof (intro allI impI)
      fix k assume k: "0 \<le> k \<and> k < VLEN"
      show "r' ! nat k = (if i \<le> k then tmpa ! nat (k + count - VLEN) else res ! nat k)"
      proof (cases "k = i")
        case True
        then show ?thesis using r'(3) k "1.prems" by simp
      next
        case False
        then have "nat i \<noteq> nat k" using k "1.prems" by auto
        then show ?thesis using r'(3) k False by auto
      qed
    qed
    ultimately show ?thesis using r'(2) by blast
  qed
qed

lemma take_drop_append_nth:
  assumes c: "0 \<le> count" "count \<le> VLEN"
    and l: "length xa = nat VLEN" "length xb = nat VLEN"
    and k: "0 \<le> k" "k < VLEN"
  shows "take (nat VLEN) (drop (nat count) (xb @ xa)) ! nat k =
           (if k < VLEN - count then xb ! nat (k + count) else xa ! nat (k + count - VLEN))"
proof -
  have "take (nat VLEN) (drop (nat count) (xb @ xa)) ! nat k = drop (nat count) (xb @ xa) ! nat k"
    using k by (intro nth_take) simp
  also have "\<dots> = (xb @ xa) ! (nat count + nat k)"
    using k c l by (intro nth_drop) simp
  also have "\<dots> = (if k < VLEN - count then xb ! nat (k + count)
                            else xa ! nat (k + count - VLEN))"
  proof (cases "k < VLEN - count")
    case True
    then have "nat count + nat k < length xb" using k c l by simp
    moreover have "nat count + nat k = nat (k + count)" using k c by arith
    ultimately show ?thesis using True by (simp add: nth_append)
  next
    case False
    then have "\<not> nat count + nat k < length xb" using k c l by simp
    moreover have "nat count + nat k - length xb = nat (k + count - VLEN)"
      using k c l(2) False by arith
    ultimately show ?thesis using False by (simp add: nth_append)
  qed
  finally show ?thesis .
qed

lemma realv_align_elems:
  assumes c: "0 \<le> count" "count \<le> VLEN"
    and l: "length (mem res) = nat VLEN" "length (mem a) = nat VLEN" "length (mem b) = nat VLEN"
    and h: "impl = USE_INTRIN512 \<Longrightarrow> count < VLEN \<and> VLEN = (if REAL_BYTES = 4 then 16 else 8)"
  shows "\<exists>r. realv_align impl REAL_BYTES VLEN count mem res a b = Some (mem(res := r))
           \<and> length r = nat VLEN
           \<and> (\<forall>k. 0 \<le> k \<and> k < VLEN \<longrightarrow>
                 r ! nat k = (if k < VLEN - count then mem b ! nat (k + count)
                              else mem a ! nat (k + count - VLEN)))"
proof (cases impl)
  case NO_INTRINSICS
  obtain r1 where r1: "align_loop1 VLEN count 0 (mem b) (mem res) = Some r1"
    "length r1 = nat VLEN"
    "\<forall>k. 0 \<le> k \<and> k < VLEN \<longrightarrow>
        r1 ! nat k = (if 0 \<le> k \<and> k < VLEN - count then mem b ! nat (k + count)
                     else mem res ! nat k)"
    using align_loop1_result [of 0 count "mem res" VLEN "mem b"] c l by auto
  obtain r2 where r2: "align_loop2 VLEN count (VLEN - count) (mem a) r1 = Some r2"
    "length r2 = nat VLEN"
    "\<forall>k. 0 \<le> k \<and> k < VLEN \<longrightarrow>
        r2 ! nat k = (if VLEN - count \<le> k then mem a ! nat (k + count - VLEN)
                     else r1 ! nat k)"
    using align_loop2_result [of "VLEN - count" VLEN count r1 "mem a"] c l r1(2) by auto
  have "realv_align impl REAL_BYTES VLEN count mem res a b = Some (mem(res := r2))"
    using NO_INTRINSICS r1(1) r2(1) by (simp add: realv_align_def)
  moreover have "\<forall>k. 0 \<le> k \<and> k < VLEN \<longrightarrow>
                 r2 ! nat k = (if k < VLEN - count then mem b ! nat (k + count)
                              else mem a ! nat (k + count - VLEN))"
    using r1(3) r2(3) by auto
  ultimately show ?thesis using r2(2) by blast
next
  case USE_INTRIN256
  let ?r = "take (nat VLEN) (drop (nat count) (mem b @ mem a))"
  have "realv_align impl REAL_BYTES VLEN count mem res a b = Some (mem(res := ?r))"
    using USE_INTRIN256 c l by (simp add: realv_align_def)
  moreover have "length ?r = nat VLEN" using c l by simp
  moreover have "\<forall>k. 0 \<le> k \<and> k < VLEN \<longrightarrow>
                 ?r ! nat k = (if k < VLEN - count then mem b ! nat (k + count)
                              else mem a ! nat (k + count - VLEN))"
    using take_drop_append_nth [OF c l(2,3)] by blast
  ultimately show ?thesis by blast
next
  case USE_INTRIN512
  let ?r = "take (nat VLEN) (drop (nat count) (mem b @ mem a))"
  note v = h [OF USE_INTRIN512]
  have m: "count mod VLEN = count"
    using c(1) v by simp
  have "realv_align impl REAL_BYTES VLEN count mem res a b = Some (mem(res := ?r))"
  proof (cases "REAL_BYTES = 4")
    case True
    then have "VLEN = 16" using v by simp
    then show ?thesis
      using USE_INTRIN512 True m by (simp add: realv_align_def mm512_alignr_epi32_def)
  next
    case False
    then have "VLEN = 8" using v by simp
    then show ?thesis
      using USE_INTRIN512 False m by (simp add: realv_align_def mm512_alignr_epi64_def)
  qed
  moreover have "length ?r = nat VLEN" using c l by simp
  moreover have "\<forall>k. 0 \<le> k \<and> k < VLEN \<longrightarrow>
                 ?r ! nat k = (if k < VLEN - count then mem b ! nat (k + count)
                              else mem a ! nat (k + count - VLEN))"
    using take_drop_append_nth [OF c l(2,3)] by blast
  ultimately show ?thesis by blast
qed

text \<open>
  Within the range of the immediate, all implementations agree.  For
  \<open>0 \<le> count \<le> VLEN\<close> under \<open>NO_INTRINSICS\<close> and \<open>USE_INTRIN256\<close>, and for
  \<open>0 \<le> count < VLEN\<close> under \<open>USE_INTRIN512\<close> (where \<open>VLEN\<close> is the number of lanes),
  \<open>realv_align<count>(res, a, b)\<close> returns with \<open>res[i] = b[i + count]\<close> for
  \<open>i < VLEN - count\<close> and \<open>res[i] = a[i + count - VLEN]\<close> for
  \<open>VLEN - count \<le> i < VLEN\<close>, where \<open>a\<close> and \<open>b\<close> are the contents before the call;
  the addresses \<open>res\<close>, \<open>a\<close> and \<open>b\<close> are arbitrary, so \<open>res\<close> may be the same object
  as \<open>a\<close> or \<open>b\<close>, and no other vector is changed.
\<close>

lemma realv_align_in_range:
  assumes "0 \<le> count" and "count \<le> VLEN"
    and "length (mem res) = nat VLEN" and "length (mem a) = nat VLEN"
    and "length (mem b) = nat VLEN"
    and "impl = USE_INTRIN512 \<Longrightarrow> count < VLEN \<and> VLEN = (if REAL_BYTES = 4 then 16 else 8)"
  shows "\<exists>mem'. realv_align impl REAL_BYTES VLEN count mem res a b = Some mem'
     \<and> (\<forall>p. p \<noteq> res \<longrightarrow> mem' p = mem p)
     \<and> length (mem' res) = nat VLEN
     \<and> (\<forall>i. 0 \<le> i \<and> i < VLEN - count \<longrightarrow> mem' res ! nat i = mem b ! nat (i + count))
     \<and> (\<forall>i. VLEN - count \<le> i \<and> i < VLEN \<longrightarrow>
            mem' res ! nat i = mem a ! nat (i + count - VLEN))
     \<and> (count = 0 \<longrightarrow> mem' res = mem b)
     \<and> (count = VLEN \<longrightarrow> mem' res = mem a)"
proof -
  obtain r where r: "realv_align impl REAL_BYTES VLEN count mem res a b = Some (mem(res := r))"
    "length r = nat VLEN"
    "\<forall>k. 0 \<le> k \<and> k < VLEN \<longrightarrow>
        r ! nat k = (if k < VLEN - count then mem b ! nat (k + count)
                    else mem a ! nat (k + count - VLEN))"
    using realv_align_elems [OF assms] by blast
  have e0: "count = 0 \<longrightarrow> r = mem b"
  proof
    assume z: "count = 0"
    show "r = mem b"
    proof (rule nth_equalityI)
      show "length r = length (mem b)" using r(2) assms by simp
    next
      fix n assume "n < length r"
      then have "0 \<le> int n \<and> int n < VLEN" using r(2) by auto
      then have "r ! nat (int n) = mem b ! nat (int n + count)"
        using r(3) [rule_format, of "int n"] z by simp
      then show "r ! n = mem b ! n" using z by simp
    qed
  qed
  have e1: "count = VLEN \<longrightarrow> r = mem a"
  proof
    assume z: "count = VLEN"
    show "r = mem a"
    proof (rule nth_equalityI)
      show "length r = length (mem a)" using r(2) assms by simp
    next
      fix n assume "n < length r"
      then have "0 \<le> int n \<and> int n < VLEN" using r(2) by auto
      then have "r ! nat (int n) = mem a ! nat (int n + count - VLEN)"
        using r(3) [rule_format, of "int n"] z by simp
      then show "r ! n = mem a ! n" using z by simp
    qed
  qed
  have p1: "\<forall>i. 0 \<le> i \<and> i < VLEN - count \<longrightarrow> r ! nat i = mem b ! nat (i + count)"
    using r(3) assms(1) by auto
  have p2: "\<forall>i. VLEN - count \<le> i \<and> i < VLEN \<longrightarrow> r ! nat i = mem a ! nat (i + count - VLEN)"
    using r(3) assms(2) by auto
  show ?thesis using r(1) r(2) e0 e1 p1 p2 by simp
qed

lemma of_epi32_epi32_of:
  "of_epi32 (epi32_of xs) = xs"
  by (induction xs) (auto simp add: epi32_of_def)

lemma epi32_of_append:
  "epi32_of (xs @ ys) = epi32_of xs @ epi32_of ys"
  by (simp add: epi32_of_def)

lemma length_epi32_of:
  "length (epi32_of xs) = 2 * length xs"
  by (induction xs) (auto simp add: epi32_of_def)

lemma drop_epi32_of:
  "drop (2 * n) (epi32_of xs) = epi32_of (drop n xs)"
proof (induction xs arbitrary: n)
  case Nil
  then show ?case
    by (simp add: epi32_of_def)
next
  case (Cons x xs)
  show ?case
  proof (cases n)
    case 0
    then show ?thesis
      by simp
  next
    case (Suc m)
    have "drop (2 * n) (epi32_of (x # xs)) = drop (2 * m) (epi32_of xs)"
      using Suc by (cases x) (simp add: epi32_of_def)
    then show ?thesis
      using Cons.IH [of m] Suc by simp
  qed
qed

lemma take_epi32_of:
  "take (2 * n) (epi32_of xs) = epi32_of (take n xs)"
proof (induction xs arbitrary: n)
  case Nil
  then show ?case
    by (simp add: epi32_of_def)
next
  case (Cons x xs)
  show ?case
  proof (cases n)
    case 0
    then show ?thesis
      by (simp add: epi32_of_def)
  next
    case (Suc m)
    obtain lo hi where x: "x = (lo, hi)"
      by (cases x)
    have "take (2 * n) (epi32_of (x # xs)) = lo # hi # take (2 * m) (epi32_of xs)"
      using Suc x by (simp add: epi32_of_def)
    also have "\<dots> = epi32_of (take n (x # xs))"
      using Cons.IH [of m] Suc x by (simp add: epi32_of_def)
    finally show ?thesis .
  qed
qed

text \<open>
  The same holds for the branch of \<open>ARCH_KNC\<close> with \<open>REAL_BYTES == 8\<close>, where
  \<open>VLEN\<close> is 8: for \<open>0 \<le> count < 8\<close> the result is the 8 elements of the
  concatenation of \<open>b\<close> and \<open>a\<close> from position \<open>count\<close> on.
\<close>

lemma realv_align_knc_in_range:
  assumes "0 \<le> count" and "count < 8"
  shows "realv_align_knc count mem res a b =
           Some (mem(res := take 8 (drop (nat count) (mem b @ mem a))))"
proof -
  have m: "count * 2 mod 16 = count * 2"
    using assms by simp
  have n: "nat (count * 2) = 2 * nat count"
    using assms by simp
  have "mm512_alignr_epi32 (epi32_of (mem a)) (epi32_of (mem b)) (count * 2) =
          take (2 * 8) (drop (2 * nat count) (epi32_of (mem b @ mem a)))"
    by (simp add: mm512_alignr_epi32_def m n epi32_of_append)
  also have "\<dots> = epi32_of (take 8 (drop (nat count) (mem b @ mem a)))"
    by (simp only: drop_epi32_of take_epi32_of)
  finally show ?thesis
    by (simp add: realv_align_knc_def of_epi32_epi32_of)
qed

text \<open>
  With \<open>count = VLEN\<close> every intrinsic implementation returns \<open>b\<close>: the immediate
  \<open>VLEN\<close> (16 or 8), and on \<open>ARCH_KNC\<close> the immediate \<open>2 * VLEN = 16\<close>, has its low
  bits 0, and the shift is by no lane.
\<close>

lemma realv_align_intrin512_count_VLEN:
  assumes "length (mem b) = (if REAL_BYTES = 4 then 16 else 8)"
  shows "realv_align USE_INTRIN512 REAL_BYTES VLEN (if REAL_BYTES = 4 then 16 else 8)
           mem res a b = Some (mem(res := mem b))"
  using assms by (simp add: realv_align_def mm512_alignr_epi32_def mm512_alignr_epi64_def)

lemma realv_align_knc_count_VLEN:
  assumes "length (mem b) = 8"
  shows "realv_align_knc 8 mem res a b = Some (mem(res := mem b))"
proof -
  have "length (epi32_of (mem b)) = 16"
    using assms by (simp add: length_epi32_of)
  then have "mm512_alignr_epi32 (epi32_of (mem a)) (epi32_of (mem b)) (8 * 2) = epi32_of (mem b)"
    by (simp add: mm512_alignr_epi32_def)
  then show ?thesis
    by (simp add: realv_align_knc_def of_epi32_epi32_of)
qed

text \<open>
  C9.  By the claim, and by the comment of the function (``shift of 0 returns b; shift
  of VLEN returns a''), \<open>realv_align<count>\<close> gives \<open>res[i] = a[i + count - VLEN]\<close>
  for \<open>VLEN - count \<le> i < VLEN\<close> for every \<open>0 \<le> count \<le> VLEN\<close>, so that
  \<open>count = VLEN\<close> yields \<open>a\<close>.  The code does not do this in a build with
  \<open>USE_INTRIN512\<close>.  For \<open>REAL_BYTES == 8\<close>, \<open>VLEN = 8\<close>, \<open>a = (1, \<dots>, 8)\<close> at
  address 2, \<open>b = (11, \<dots>, 18)\<close> at address 3 and \<open>res\<close> at address 4,
  \<open>realv_align<8>(res, a, b)\<close> leaves \<open>b\<close> in \<open>res\<close> under \<open>USE_INTRIN512\<close>, while the
  implementations under \<open>NO_INTRINSICS\<close> and \<open>USE_INTRIN256\<close> leave \<open>a\<close> there.
\<close>

theorem realv_align_count_VLEN_intrin512:
  "map_option (\<lambda>mem'. mem' 4)
     (realv_align USE_INTRIN512 8 8 8
        ((\<lambda>p. replicate 8 (0 :: int))
           (2 := [1, 2, 3, 4, 5, 6, 7, 8], 3 := [11, 12, 13, 14, 15, 16, 17, 18])) 4 2 3)
     = Some [11, 12, 13, 14, 15, 16, 17, 18]
   \<and> map_option (\<lambda>mem'. mem' 4)
     (realv_align NO_INTRINSICS 8 8 8
        ((\<lambda>p. replicate 8 (0 :: int))
           (2 := [1, 2, 3, 4, 5, 6, 7, 8], 3 := [11, 12, 13, 14, 15, 16, 17, 18])) 4 2 3)
     = Some [1, 2, 3, 4, 5, 6, 7, 8]
   \<and> map_option (\<lambda>mem'. mem' 4)
     (realv_align USE_INTRIN256 8 8 8
        ((\<lambda>p. replicate 8 (0 :: int))
           (2 := [1, 2, 3, 4, 5, 6, 7, 8], 3 := [11, 12, 13, 14, 15, 16, 17, 18])) 4 2 3)
     = Some [1, 2, 3, 4, 5, 6, 7, 8]"
proof -
  define mem where "mem = (\<lambda>p::nat. replicate 8 (0 :: int))
           (2 := [1, 2, 3, 4, 5, 6, 7, 8], 3 := [11, 12, 13, 14, 15, 16, 17, 18])"
  have m2: "mem 2 = [1, 2, 3, 4, 5, 6, 7, 8]" and m3: "mem 3 = [11, 12, 13, 14, 15, 16, 17, 18]"
    and m4: "mem 4 = replicate 8 0"
    by (simp_all add: mem_def)
  have i: "map_option (\<lambda>mem'. mem' 4) (realv_align USE_INTRIN512 8 8 8 mem 4 2 3)
             = Some [11, 12, 13, 14, 15, 16, 17, 18]"
    by (simp add: realv_align_def mm512_alignr_epi64_def m2 m3)
  have s: "map_option (\<lambda>mem'. mem' 4) (realv_align impl 8 8 8 mem 4 2 3)
             = Some [1, 2, 3, 4, 5, 6, 7, 8]" if "impl \<noteq> USE_INTRIN512" for impl
  proof -
    have "\<exists>mem'. realv_align impl 8 8 8 mem 4 2 3 = Some mem'
       \<and> (\<forall>p. p \<noteq> 4 \<longrightarrow> mem' p = mem p)
       \<and> length (mem' 4) = nat 8
       \<and> (\<forall>i. 0 \<le> i \<and> i < 8 - 8 \<longrightarrow> mem' 4 ! nat i = mem 3 ! nat (i + 8))
       \<and> (\<forall>i. 8 - 8 \<le> i \<and> i < 8 \<longrightarrow> mem' 4 ! nat i = mem 2 ! nat (i + 8 - 8))
       \<and> ((8::int) = 0 \<longrightarrow> mem' 4 = mem 3)
       \<and> ((8::int) = 8 \<longrightarrow> mem' 4 = mem 2)"
      using that by (intro realv_align_in_range) (simp_all add: m2 m3 m4)
    then obtain mem' where "realv_align impl 8 8 8 mem 4 2 3 = Some mem'" "mem' 4 = mem 2"
      by auto
    then show ?thesis
      by (simp add: m2)
  qed
  have n: "map_option (\<lambda>mem'. mem' 4) (realv_align NO_INTRINSICS 8 8 8 mem 4 2 3)
             = Some [1, 2, 3, 4, 5, 6, 7, 8]"
    by (rule s) simp
  have t: "map_option (\<lambda>mem'. mem' 4) (realv_align USE_INTRIN256 8 8 8 mem 4 2 3)
             = Some [1, 2, 3, 4, 5, 6, 7, 8]"
    by (rule s) simp
  show ?thesis
    using i n t unfolding mem_def by (intro conjI)
qed

lemma alignedAlloc_not_null: "fst (alignedAlloc cfg os nbytes) = Inr p \<Longrightarrow> p \<noteq> 0"
  by (auto simp: alignedAlloc_def Let_def split: if_splits prod.splits)

lemma alignedAlloc_fails:
  "aligned_alloc_fails cfg os nbytes \<Longrightarrow> isl (fst (alignedAlloc cfg os nbytes))"
  by (auto simp: alignedAlloc_def aligned_alloc_fails_def Let_def split: if_splits prod.splits)

lemma alignedAlloc_calls:
  "snd (alignedAlloc cfg os nbytes) =
     (let align = (if nbytes \<ge> YASK_HUGE_ALIGNMENT cfg
                   then YASK_HUGE_ALIGNMENT cfg else CACHELINE_BYTES cfg)
      in if have_posix_memalign cfg then [Posix_memalign align nbytes]
         else [Aligned_alloc align nbytes])"
  by (auto simp: alignedAlloc_def Let_def split: if_splits prod.splits)

lemma numaAlloc_not_null: "fst (numaAlloc cfg os nbytes numa_pref) = Inr p \<Longrightarrow> p \<noteq> 0"
  by (auto simp: numaAlloc_def Let_def dest: alignedAlloc_not_null
           split: if_splits prod.splits sum.splits)

lemma numaAlloc_fails:
  assumes "numa_pref \<noteq> yask_numa_none cfg" and "mmap_fails os nbytes"
  shows "isl (fst (numaAlloc cfg os nbytes numa_pref))"
  using assms
  by (auto simp: numaAlloc_def mmap_fails_def Let_def split: if_splits prod.splits sum.splits)

text \<open>
  C5.  \<open>alignedAlloc\<close> and \<open>numaAlloc\<close> never return a null pointer; when the
  underlying allocation fails they raise an exception; and
  \<open>numaAlloc(nbytes, yask_numa_none)\<close> is exactly \<open>alignedAlloc(nbytes)\<close>: the same
  result from the same single aligned allocation (cache-line or huge-page alignment
  chosen by size), with no binding call.
\<close>

theorem alloc_never_null:
  "(\<forall>p. fst (alignedAlloc cfg os nbytes) = Inr p \<longrightarrow> p \<noteq> 0)
   \<and> (\<forall>p. fst (numaAlloc cfg os nbytes numa_pref) = Inr p \<longrightarrow> p \<noteq> 0)
   \<and> (aligned_alloc_fails cfg os nbytes \<longrightarrow> isl (fst (alignedAlloc cfg os nbytes)))
   \<and> (aligned_alloc_fails cfg os nbytes \<longrightarrow>
        isl (fst (numaAlloc cfg os nbytes (yask_numa_none cfg))))
   \<and> (numa_pref \<noteq> yask_numa_none cfg \<and> mmap_fails os nbytes \<longrightarrow>
        isl (fst (numaAlloc cfg os nbytes numa_pref)))
   \<and> numaAlloc cfg os nbytes (yask_numa_none cfg) = alignedAlloc cfg os nbytes
   \<and> snd (numaAlloc cfg os nbytes (yask_numa_none cfg)) =
       (let align = (if nbytes \<ge> YASK_HUGE_ALIGNMENT cfg
                     then YASK_HUGE_ALIGNMENT cfg else CACHELINE_BYTES cfg)
        in if have_posix_memalign cfg then [Posix_memalign align nbytes]
           else [Aligned_alloc align nbytes])"
proof -
  have same: "numaAlloc cfg os nbytes (yask_numa_none cfg) = alignedAlloc cfg os nbytes"
    by (simp add: numaAlloc_def)
  show ?thesis
    using alignedAlloc_not_null [of cfg os nbytes]
      numaAlloc_not_null [of cfg os nbytes numa_pref]
      alignedAlloc_fails [of cfg os nbytes]
      numaAlloc_fails [of numa_pref cfg os nbytes]
      alignedAlloc_calls [of cfg os nbytes]
    by (simp add: same)
qed

theorem alloc_never_null_witness:
  "(let cfg = \<lparr>CACHELINE_BYTES = 64, YASK_HUGE_ALIGNMENT = 2097152,
                have_posix_memalign = True, USE_NUMA = True, USE_NUMA_POLICY_LIB = False,
                have_MPOL_LOCAL = True, yask_numa_none = - 9, yask_numa_interleave = - 2,
                makeByteStr = (\<lambda>n. ''100B'')\<rparr>;
        os_ok = \<lparr>posix_memalign = (\<lambda>al n. (0, 4096)), aligned_alloc = (\<lambda>al n. 4096),
                  numa_available = 0, numa_max_node = 1, get_mempolicy = 0,
                  mmap = (\<lambda>n. 8192)\<rparr>;
        os_bad = \<lparr>posix_memalign = (\<lambda>al n. (12, 0)), aligned_alloc = (\<lambda>al n. 0),
                   numa_available = 0, numa_max_node = 1, get_mempolicy = 0,
                   mmap = (\<lambda>n. MAP_FAILED)\<rparr>
    in fst (alignedAlloc cfg os_ok 100) = Inr 4096
       \<and> fst (numaAlloc cfg os_ok 100 1) = Inr 8192
       \<and> snd (numaAlloc cfg os_ok 100 (- 9)) = [Posix_memalign 64 100]
       \<and> aligned_alloc_fails cfg os_bad 100
       \<and> isl (fst (alignedAlloc cfg os_bad 100))
       \<and> mmap_fails os_bad 100
       \<and> isl (fst (numaAlloc cfg os_bad 100 1)))"
proof -
  define cfg where "cfg = \<lparr>CACHELINE_BYTES = 64, YASK_HUGE_ALIGNMENT = 2097152,
                have_posix_memalign = True, USE_NUMA = True, USE_NUMA_POLICY_LIB = False,
                have_MPOL_LOCAL = True, yask_numa_none = - 9, yask_numa_interleave = - 2,
                makeByteStr = (\<lambda>n::nat. ''100B'')\<rparr>"
  define os_ok where "os_ok = \<lparr>posix_memalign = (\<lambda>(al::nat) n::nat. (0::int32, 4096::raw_ptr)),
                  aligned_alloc = (\<lambda>(al::nat) n::nat. 4096),
                  numa_available = 0, numa_max_node = 1, get_mempolicy = 0,
                  mmap = (\<lambda>n::nat. 8192)\<rparr>"
  define os_bad where "os_bad = \<lparr>posix_memalign = (\<lambda>(al::nat) n::nat. (12::int32, 0::raw_ptr)),
                   aligned_alloc = (\<lambda>(al::nat) n::nat. 0),
                   numa_available = 0, numa_max_node = 1, get_mempolicy = 0,
                   mmap = (\<lambda>n::nat. MAP_FAILED)\<rparr>"
  have a: "fst (alignedAlloc cfg os_ok 100) = Inr 4096"
    by (simp add: alignedAlloc_def cfg_def os_ok_def)
  have n: "fst (numaAlloc cfg os_ok 100 1) = Inr 8192"
    by (simp add: numaAlloc_def cfg_def os_ok_def MAP_FAILED_def word_sle_eq)
  have f: "aligned_alloc_fails cfg os_bad 100"
    by (simp add: aligned_alloc_fails_def cfg_def os_bad_def)
  have m: "mmap_fails os_bad 100"
    by (simp add: mmap_fails_def os_bad_def)
  have p: "(1 :: int32) \<noteq> yask_numa_none cfg"
    by (simp add: cfg_def)
  have cf: "YASK_HUGE_ALIGNMENT cfg = 2097152" "CACHELINE_BYTES cfg = 64"
    "have_posix_memalign cfg" by (simp_all add: cfg_def)
  have "snd (numaAlloc cfg os_ok 100 (yask_numa_none cfg)) =
       (let align = (if 100 \<ge> YASK_HUGE_ALIGNMENT cfg
                     then YASK_HUGE_ALIGNMENT cfg else CACHELINE_BYTES cfg)
        in if have_posix_memalign cfg then [Posix_memalign align 100]
           else [Aligned_alloc align 100])"
    using alloc_never_null [of cfg os_ok 100 1] by blast
  then have c: "snd (numaAlloc cfg os_ok 100 (yask_numa_none cfg)) = [Posix_memalign 64 100]"
    by (simp add: cf)
  have "isl (fst (alignedAlloc cfg os_bad 100))"
    using alloc_never_null [of cfg os_bad 100 1] f by blast
  moreover have "isl (fst (numaAlloc cfg os_bad 100 1))"
    using alloc_never_null [of cfg os_bad 100 1] m p by blast
  moreover have "yask_numa_none cfg = - 9" by (simp add: cfg_def)
  ultimately show ?thesis
    using a n f m c unfolding Let_def cfg_def [symmetric] os_ok_def [symmetric] os_bad_def [symmetric]
    by simp
qed









lemma round_mag_nonneg:
  assumes "0 \<le> a" and "round_mag fmt a e = Some (q, e')"
  shows "0 \<le> q"
proof -
  define a0 where "a0 = a * 2 ^ nat (e - min e (emax fmt))"
  define k where
    "k = nat (max 0 (max (bitlen a0 - int (precision fmt)) (emin fmt - min e (emax fmt))))"
  have a0: "0 \<le> a0"
    using assms(1) by (simp add: a0_def)
  have d: "0 \<le> a0 div 2 ^ k"
    using a0 by (simp add: pos_imp_zdiv_nonneg_iff)
  from assms(2) show ?thesis
    using d
    by (auto simp add: round_mag_def Let_def a0_def [symmetric] k_def [symmetric]
        split: if_splits)
qed

lemma fp_abs_round:
  "fp_abs (fp_round fmt m e) = fp_round fmt \<bar>m\<bar> e"
proof (cases "round_mag fmt \<bar>m\<bar> e")
  case None
  then show ?thesis
    by (simp add: fp_round_def)
next
  case (Some r)
  obtain q e' where r: "r = (q, e')"
    by (cases r)
  have "0 \<le> q"
    using round_mag_nonneg [of "\<bar>m\<bar>" fmt e q e'] Some r by simp
  then show ?thesis
    using Some r by (simp add: fp_round_def)
qed

lemma round_mag_valid:
  assumes "0 \<le> a" and "a < 2 ^ precision fmt" and "emin fmt \<le> e" and "e \<le> emax fmt"
  shows "round_mag fmt a e = Some (a, e)"
proof -
  have "bitlen a \<le> int (precision fmt)"
    using assms(2) by (simp add: bitlen_le_iff_power)
  then show ?thesis
    using assms by (simp add: round_mag_def Let_def min_def)
qed

lemma fp_round_valid:
  assumes "\<bar>m\<bar> < 2 ^ precision fmt" and "emin fmt \<le> e" and "e \<le> emax fmt"
  shows "fp_round fmt m e = Finite m e"
  using round_mag_valid [of "\<bar>m\<bar>" fmt e] assms
  by (simp add: fp_round_def)

lemma fp_mul_one:
  assumes "fp_valid fmt x"
  shows "fp_mul fmt x fp_one = x"
  using assms
  by (cases x) (simp_all add: fp_one_def fp_valid_def fp_round_valid)

lemma fp_lt_zero:
  "fp_lt (Finite m e) fp_zero \<longleftrightarrow> m < 0"
  by (simp add: fp_zero_def Let_def zero_less_mult_iff mult_less_0_iff)

lemma fp_abs_mul:
  assumes "\<not> fp_lt epsilon fp_zero"
  shows "fp_abs (fp_mul fmt ref epsilon) = fp_mul fmt epsilon (fp_abs ref)"
proof (cases epsilon)
  case (Finite m' e')
  have m': "0 \<le> m'"
    using assms Finite by (simp add: fp_lt_zero)
  show ?thesis
  proof (cases ref)
    case (Finite m e)
    have "\<bar>m * m'\<bar> = m' * \<bar>m\<bar>"
      using m' by (simp add: abs_mult)
    then show ?thesis
      using Finite \<open>epsilon = Finite m' e'\<close> by (simp add: fp_abs_round add.commute)
  next
    case PInf
    then show ?thesis
      using m' \<open>epsilon = Finite m' e'\<close> by simp
  next
    case NInf
    then show ?thesis
      using m' \<open>epsilon = Finite m' e'\<close> by simp
  next
    case NaN
    then show ?thesis
      using \<open>epsilon = Finite m' e'\<close> by simp
  qed
next
  case PInf
  then show ?thesis
    by (cases ref) simp_all
next
  case NInf
  then show ?thesis
    using assms by (simp add: fp_zero_def)
next
  case NaN
  then show ?thesis
    by (cases ref) simp_all
qed

text \<open>
  C4, as stated: \<open>within_tolerance(val, ref, epsilon)\<close> is true if and only if
  \<open>|val - ref| < epsilon * max(|ref|, 1)\<close>.  This fails in two ways.  For a negative
  \<open>epsilon\<close> with \<open>|ref| > 1\<close> the code takes the absolute value of \<open>ref * epsilon\<close>:
  in binary64, at \<open>val = ref = 2\<close> and \<open>epsilon = - 1\<close> the code computes \<open>adiff = 0\<close>
  and the tolerance \<open>|2 * (- 1)| = 2\<close>, compares \<open>0 < 2\<close> and returns true, while
  \<open>epsilon * max(|ref|, 1) = - 2\<close> and \<open>0 < - 2\<close> is false, with rounding or without.
  And the code compares the rounded difference: in binary32, at \<open>val = 1\<close>,
  \<open>ref = 2^-60\<close> and \<open>epsilon = 1\<close> the difference \<open>val - ref\<close> rounds to 1, the code
  compares \<open>1 < 1\<close> and returns false, while the exact \<open>1 - 2^-60\<close> is less than
  \<open>1 * max(2^-60, 1) = 1\<close>.
\<close>

theorem within_tolerance_negative_epsilon:
  "within_tolerance binary64 (Finite 2 0) (Finite 2 0) (Finite (- 1) 0) \<and>
   \<not> fp_lt (fp_abs (fp_sub binary64 (Finite 2 0) (Finite 2 0)))
      (scaled_tolerance binary64 (Finite 2 0) (Finite (- 1) 0)) \<and>
   exact_tolerance_check (Finite 2 0) (Finite 2 0) (Finite (- 1) 0) = Some False \<and>
   \<not> within_tolerance binary32 (Finite 1 0) (Finite 1 (- 60)) (Finite 1 0) \<and>
   exact_tolerance_check (Finite 1 0) (Finite 1 (- 60)) (Finite 1 0) = Some True"
proof -
  have d: "fp_sub binary64 (Finite 2 0) (Finite 2 0) = Finite 0 0"
    by (simp add: fp_round_valid binary64_def)
  have m: "fp_mul binary64 (Finite 2 0) (Finite (- 1) 0) = Finite (- 2) 0"
    by (simp add: fp_round_valid binary64_def)
  have m': "fp_mul binary64 (Finite (- 1) 0) (Finite 2 0) = Finite (- 2) 0"
    by (simp add: fp_round_valid binary64_def)
  have g: "fp_gt (fp_abs (Finite 2 0)) fp_one"
    by (simp add: fp_gt_def fp_one_def)
  have c: "within_tolerance binary64 (Finite 2 0) (Finite 2 0) (Finite (- 1) 0)"
    unfolding within_tolerance_def d m using g by simp
  have s: "\<not> fp_lt (fp_abs (fp_sub binary64 (Finite 2 0) (Finite 2 0)))
      (scaled_tolerance binary64 (Finite 2 0) (Finite (- 1) 0))"
    unfolding scaled_tolerance_def fp_max_def d using g m' by simp
  have x: "exact_tolerance_check (Finite 2 0) (Finite 2 0) (Finite (- 1) 0) = Some False"
    by (simp add: exact_tolerance_check_def)
  have "bitlen 1152921504606846975 \<le> 60" and "60 \<le> bitlen 1152921504606846975"
    by (simp_all add: bitlen_le_iff_power bitlen_ge_iff_power)
  then have b: "bitlen 1152921504606846975 = 60"
    by simp
  have "round_mag binary32 1152921504606846975 (- 60) = Some (8388608, - 23)"
    by (simp add: round_mag_def binary32_def Let_def b)
  then have s1: "fp_sub binary32 (Finite 1 0) (Finite 1 (- 60)) = Finite 8388608 (- 23)"
    by (simp add: fp_round_def)
  have g1: "\<not> fp_gt (fp_abs (Finite 1 (- 60))) fp_one"
    by (simp add: fp_gt_def fp_one_def)
  have c1: "\<not> within_tolerance binary32 (Finite 1 0) (Finite 1 (- 60)) (Finite 1 0)"
    unfolding within_tolerance_def s1 using g1 by simp
  have x1: "exact_tolerance_check (Finite 1 0) (Finite 1 (- 60)) (Finite 1 0) = Some True"
    by (simp add: exact_tolerance_check_def)
  show ?thesis
    by (intro conjI) (fact c s x c1 x1)+
qed

text \<open>
  C4, amended.  When \<open>epsilon\<close> is not negative, or \<open>|ref|\<close> is not greater than 1,
  \<open>within_tolerance(val, ref, epsilon)\<close> returns true if and only if
  \<open>|val - ref| < epsilon * max(|ref|, 1)\<close>, where the difference and the product are
  the rounded ones of \<open>T\<close> that the code computes and \<open>epsilon\<close> is a value of \<open>T\<close>:
  the comparison is strict, and the tolerance is scaled by \<open>|ref|\<close> exactly when
  \<open>|ref| > 1\<close> and used unscaled otherwise.
\<close>

theorem within_tolerance_iff:
  assumes "fp_valid fmt epsilon"
    and "\<not> fp_lt epsilon fp_zero \<or> \<not> fp_gt (fp_abs ref) fp_one"
  shows "within_tolerance fmt val ref epsilon \<longleftrightarrow>
         fp_lt (fp_abs (fp_sub fmt val ref)) (scaled_tolerance fmt ref epsilon)"
proof (cases "fp_gt (fp_abs ref) fp_one")
  case True
  then have "\<not> fp_lt epsilon fp_zero"
    using assms(2) by simp
  then have "fp_abs (fp_mul fmt ref epsilon) = fp_mul fmt epsilon (fp_abs ref)"
    by (rule fp_abs_mul)
  then show ?thesis
    using True by (simp add: within_tolerance_def scaled_tolerance_def fp_max_def)
next
  case False
  then show ?thesis
    using fp_mul_one [OF assms(1)]
    by (simp add: within_tolerance_def scaled_tolerance_def fp_max_def)
qed

theorem within_tolerance_iff_witness:
  "fp_valid binary32 (Finite 1 0) \<and>
   \<not> fp_lt (Finite 1 0) fp_zero \<and>
   \<not> within_tolerance binary32 (Finite 1 0) (Finite 1 (- 60)) (Finite 1 0) \<and>
   \<not> fp_lt (fp_abs (fp_sub binary32 (Finite 1 0) (Finite 1 (- 60))))
        (scaled_tolerance binary32 (Finite 1 (- 60)) (Finite 1 0)) \<and>
   fp_valid binary64 (Finite 1 (- 1)) \<and>
   \<not> fp_lt (Finite 1 (- 1)) fp_zero \<and>
   within_tolerance binary64 (Finite (- 5) 0) (Finite (- 4) 0) (Finite 1 (- 1)) \<and>
   fp_lt (fp_abs (fp_sub binary64 (Finite (- 5) 0) (Finite (- 4) 0)))
     (scaled_tolerance binary64 (Finite (- 4) 0) (Finite 1 (- 1))) \<and>
   fp_valid binary64 (Finite (- 1) 0) \<and>
   \<not> fp_gt (fp_abs (Finite 1 (- 1))) fp_one \<and>
   \<not> within_tolerance binary64 (Finite 1 (- 1)) (Finite 1 (- 1)) (Finite (- 1) 0) \<and>
   \<not> fp_lt (fp_abs (fp_sub binary64 (Finite 1 (- 1)) (Finite 1 (- 1))))
        (scaled_tolerance binary64 (Finite 1 (- 1)) (Finite (- 1) 0))"
proof -
  have v1: "fp_valid binary32 (Finite 1 0)"
    by (simp add: fp_valid_def binary32_def)
  have n1: "\<not> fp_lt (Finite 1 0) fp_zero"
    by (simp add: fp_lt_zero)
  have "bitlen 1152921504606846975 \<le> 60" and "60 \<le> bitlen 1152921504606846975"
    by (simp_all add: bitlen_le_iff_power bitlen_ge_iff_power)
  then have b: "bitlen 1152921504606846975 = 60"
    by simp
  have "round_mag binary32 1152921504606846975 (- 60) = Some (8388608, - 23)"
    by (simp add: round_mag_def binary32_def Let_def b)
  then have s1: "fp_sub binary32 (Finite 1 0) (Finite 1 (- 60)) = Finite 8388608 (- 23)"
    by (simp add: fp_round_def)
  have g1: "\<not> fp_gt (fp_abs (Finite 1 (- 60))) fp_one"
    by (simp add: fp_gt_def fp_one_def)
  have m1: "fp_mul binary32 (Finite 1 0) fp_one = Finite 1 0"
    by (rule fp_mul_one) (fact v1)
  have r1: "\<not> fp_lt (fp_abs (fp_sub binary32 (Finite 1 0) (Finite 1 (- 60))))
        (scaled_tolerance binary32 (Finite 1 (- 60)) (Finite 1 0))"
    unfolding s1 scaled_tolerance_def fp_max_def using g1 m1 by simp
  have c1: "\<not> within_tolerance binary32 (Finite 1 0) (Finite 1 (- 60)) (Finite 1 0)"
    using within_tolerance_iff [where val = "Finite 1 0" and ref = "Finite 1 (- 60)",
        OF v1 disjI1 [OF n1]] r1
    by simp
  have v2: "fp_valid binary64 (Finite 1 (- 1))"
    by (simp add: fp_valid_def binary64_def)
  have n2: "\<not> fp_lt (Finite 1 (- 1)) fp_zero"
    by (simp add: fp_lt_zero)
  have s2: "fp_sub binary64 (Finite (- 5) 0) (Finite (- 4) 0) = Finite (- 1) 0"
    by (simp add: fp_round_valid binary64_def)
  have g2: "fp_gt (fp_abs (Finite (- 4) 0)) fp_one"
    by (simp add: fp_gt_def fp_one_def)
  have m2: "fp_mul binary64 (Finite 1 (- 1)) (Finite 4 0) = Finite 4 (- 1)"
    by (simp add: fp_round_valid binary64_def)
  have r2: "fp_lt (fp_abs (fp_sub binary64 (Finite (- 5) 0) (Finite (- 4) 0)))
     (scaled_tolerance binary64 (Finite (- 4) 0) (Finite 1 (- 1)))"
    unfolding s2 scaled_tolerance_def fp_max_def using g2 m2 by simp
  have c2: "within_tolerance binary64 (Finite (- 5) 0) (Finite (- 4) 0) (Finite 1 (- 1))"
    using within_tolerance_iff [where val = "Finite (- 5) 0" and ref = "Finite (- 4) 0",
        OF v2 disjI1 [OF n2]] r2
    by simp
  have v3: "fp_valid binary64 (Finite (- 1) 0)"
    by (simp add: fp_valid_def binary64_def)
  have g3: "\<not> fp_gt (fp_abs (Finite 1 (- 1))) fp_one"
    by (simp add: fp_gt_def fp_one_def)
  have s3: "fp_sub binary64 (Finite 1 (- 1)) (Finite 1 (- 1)) = Finite 0 (- 1)"
    by (simp add: fp_round_valid binary64_def)
  have m3: "fp_mul binary64 (Finite (- 1) 0) fp_one = Finite (- 1) 0"
    by (rule fp_mul_one) (fact v3)
  have r3: "\<not> fp_lt (fp_abs (fp_sub binary64 (Finite 1 (- 1)) (Finite 1 (- 1))))
        (scaled_tolerance binary64 (Finite 1 (- 1)) (Finite (- 1) 0))"
    unfolding s3 scaled_tolerance_def fp_max_def using g3 m3 by simp
  have c3: "\<not> within_tolerance binary64 (Finite 1 (- 1)) (Finite 1 (- 1)) (Finite (- 1) 0)"
    using within_tolerance_iff [where val = "Finite 1 (- 1)", OF v3 disjI2 [OF g3]] r3
    by simp
  show ?thesis
    by (intro conjI) (fact v1 n1 c1 r1 v2 n2 c2 r2 v3 g3 c3 r3)+
qed

text \<open>
  C6.  \<open>get_stats()\<close> returns a statistics object that reports the steps done and the
  elapsed run seconds held by the context, which are those accumulated since the last
  reset; as a side effect the step counter and the run and MPI timers are zero
  afterwards, so that a second \<open>get_stats()\<close> right after the first reports zero steps
  done and zero elapsed run seconds.
\<close>

theorem get_stats_resets:
  "get_num_steps_done (fst (get_stats ctx)) = steps_done ctx
   \<and> get_elapsed_run_secs (fst (get_stats ctx)) = get_elapsed_secs (run_time ctx)
   \<and> steps_done (snd (get_stats ctx)) = 0
   \<and> get_elapsed_secs (run_time (snd (get_stats ctx))) = 0
   \<and> get_elapsed_secs (mpi_time (snd (get_stats ctx))) = 0
   \<and> get_num_steps_done (fst (get_stats (snd (get_stats ctx)))) = 0
   \<and> get_elapsed_run_secs (fst (get_stats (snd (get_stats ctx)))) = 0"
  by (simp add: get_stats_def clear_timers_def YaskTimer_clear_def get_elapsed_secs_def
      get_num_steps_done_def get_elapsed_run_secs_def Stats_init_def Let_def)

lemma check_arg_no_match:
  assumes "argi < length args" and "\<not> matches opt (args ! argi)"
  shows "check_arg opt args argi mem = Inr (False, argi, mem)"
  using assms by (cases opt) (auto simp: OptionBase_check_arg_def Let_def)

lemma check_arg_bool_match:
  assumes "argi < length args" and "matches (BoolOption name val) (args ! argi)"
  shows "check_arg (BoolOption name val) args argi mem
           = Inr (True, argi + 1,
                  mem\<lparr>bool_vals := (bool_vals mem)(val := (args ! argi = ''-'' @ name))\<rparr>)"
  using assms by (auto simp: OptionBase_check_arg_def Let_def)

lemma check_arg_value_match:
  assumes "argi < length args" and "matches opt (args ! argi)" and "takes_value opt"
  shows "check_arg opt args argi mem =
           (case OptionBase_idx_val args (argi + 1) of
              Inl e \<Rightarrow> Inl (e, mem)
            | Inr (v, argi2) \<Rightarrow> Inr (True, argi2, store_value opt v mem))"
  using assms
  by (cases opt) (auto simp: OptionBase_check_arg_def Let_def split: sum.splits)

lemma idx_val_Inr:
  assumes "OptionBase_idx_val args argi = Inr (v, argi2)"
  shows "argi < length args \<and> argi2 = argi + 1"
  using assms
  by (auto simp: OptionBase_idx_val_def Let_def split: if_splits prod.splits)

lemma check_arg_match_result:
  assumes "argi < length args" and "matches opt (args ! argi)"
  shows "(\<exists>e. check_arg opt args argi mem = Inl e)
         \<or> (\<exists>argi1 mem1. check_arg opt args argi mem = Inr (True, argi1, mem1))"
proof (cases "takes_value opt")
  case True
  show ?thesis
    unfolding check_arg_value_match [OF assms True]
    by (auto split: sum.splits)
next
  case False
  then obtain name val where "opt = BoolOption name val" by (cases opt) auto
  then show ?thesis using check_arg_bool_match assms by blast
qed

lemma opts_loop_selected:
  assumes "argi < length args"
  shows "opts_loop opts args argi mem =
           (case selected_option opts (args ! argi) of
              None \<Rightarrow> Inr (False, argi, mem)
            | Some opt \<Rightarrow> check_arg opt args argi mem)"
proof (induction opts)
  case Nil
  show ?case by (simp add: selected_option_def)
next
  case (Cons oi ois)
  show ?case
  proof (cases "matches (snd oi) (args ! argi)")
    case True
    then have s: "selected_option (oi # ois) (args ! argi) = Some (snd oi)"
      by (simp add: selected_option_def)
    from check_arg_match_result [OF assms True, of mem]
    have "opts_loop (oi # ois) args argi mem = check_arg (snd oi) args argi mem"
      by auto
    then show ?thesis by (simp add: s)
  next
    case False
    then have s: "selected_option (oi # ois) (args ! argi) = selected_option ois (args ! argi)"
      by (simp add: selected_option_def)
    have "opts_loop (oi # ois) args argi mem = opts_loop ois args argi mem"
      by (simp add: check_arg_no_match [OF assms False])
    then show ?thesis using Cons.IH s by simp
  qed
qed

lemma selected_option_matches:
  "selected_option opts tok = Some opt \<Longrightarrow> matches opt tok"
  by (auto simp: selected_option_def find_Some_iff)

lemma parse_loop_unused:
  assumes "parse_loop opts args argi mem non_args = Inr (mem', unused)"
    and "argi \<le> length args"
  shows "unused = non_args @ unused_tokens opts (drop argi args)"
  using assms
proof (induction opts args argi mem non_args rule: parse_loop.induct)
  case (1 opts args argi mem non_args)
  show ?case
  proof (cases "argi < length args")
    case False
    then show ?thesis using "1.prems" by (simp add: parse_loop.simps)
  next
    case True
    let ?tok = "args ! argi"
    have d: "drop argi args = ?tok # drop (argi + 1) args"
      using True by (simp add: Cons_nth_drop_Suc)
    show ?thesis
    proof (cases "selected_option opts ?tok")
      case None
      have ol: "opts_loop opts args argi mem = Inr (False, argi, mem)"
        by (simp add: opts_loop_selected [OF True] None)
      have "parse_loop opts args (argi + 1) mem (non_args @ [?tok]) = Inr (mem', unused)"
        using "1.prems"(1) True ol by (subst (asm) parse_loop.simps) simp
      then have "unused = (non_args @ [?tok]) @ unused_tokens opts (drop (argi + 1) args)"
        using "1.IH"(1) [OF True ol refl refl] True by simp
      then show ?thesis by (simp add: d None)
    next
      case (Some opt)
      have m: "matches opt ?tok" using Some by (rule selected_option_matches)
      have ol: "opts_loop opts args argi mem = check_arg opt args argi mem"
        by (simp add: opts_loop_selected [OF True] Some)
      show ?thesis
      proof (cases "takes_value opt")
        case False
        then obtain name val where o: "opt = BoolOption name val" by (cases opt) auto
        let ?mem1 = "mem\<lparr>bool_vals := (bool_vals mem)(val := (?tok = ''-'' @ name))\<rparr>"
        have ol': "opts_loop opts args argi mem = Inr (True, argi + 1, ?mem1)"
          using ol check_arg_bool_match [OF True m [unfolded o]] o by simp
        have "parse_loop opts args (argi + 1) ?mem1 non_args = Inr (mem', unused)"
          using "1.prems"(1) True ol' by (subst (asm) parse_loop.simps) simp
        then have "unused = non_args @ unused_tokens opts (drop (argi + 1) args)"
          using "1.IH"(2) [OF True ol' refl refl] True by simp
        then show ?thesis using False by (simp add: d Some)
      next
        case tv: True
        have ca: "check_arg opt args argi mem =
           (case OptionBase_idx_val args (argi + 1) of
              Inl e \<Rightarrow> Inl (e, mem)
            | Inr (v, argi2) \<Rightarrow> Inr (True, argi2, store_value opt v mem))"
          by (rule check_arg_value_match [OF True m tv])
        show ?thesis
        proof (cases "OptionBase_idx_val args (argi + 1)")
          case (Inl e)
          then have "parse_loop opts args argi mem non_args = Inl (e, mem)"
            using True ol ca by (subst parse_loop.simps) simp
          then show ?thesis using "1.prems"(1) by simp
        next
          case (Inr r)
          obtain v argi2 where r: "r = (v, argi2)" by (cases r)
          have a2: "argi + 1 < length args" "argi2 = argi + 2"
            using idx_val_Inr [OF Inr [unfolded r]] by simp_all
          have ol': "opts_loop opts args argi mem = Inr (True, argi + 2, store_value opt v mem)"
            using ol ca Inr r a2 by simp
          have "parse_loop opts args (argi + 2) (store_value opt v mem) non_args
                  = Inr (mem', unused)"
            using "1.prems"(1) True ol' by (subst (asm) parse_loop.simps) simp
          then have "unused = non_args @ unused_tokens opts (drop (argi + 2) args)"
            using "1.IH"(2) [OF True ol' refl refl] a2 by simp
          moreover have "tl (drop (argi + 1) args) = drop (argi + 2) args"
            by (simp add: drop_Suc tl_drop)
          ultimately show ?thesis using tv by (simp add: d Some)
        qed
      qed
    qed
  qed
qed

lemma unused_tokens_subseq: "subseq (unused_tokens opts toks) toks"
proof (induction opts toks rule: unused_tokens.induct)
  case (1 opts)
  show ?case by simp
next
  case (2 opts tok toks)
  show ?case
  proof (cases "selected_option opts tok")
    case None
    then show ?thesis using 2 by simp
  next
    case (Some opt)
    show ?thesis
    proof (cases "takes_value opt")
      case True
      have "subseq (unused_tokens opts (tl toks)) (tl toks)" using 2 Some True by simp
      moreover have "subseq (tl toks) (tok # toks)"
        by (cases toks) (auto intro: list_emb_Cons)
      ultimately have "subseq (unused_tokens opts (tl toks)) (tok # toks)"
        by (rule subseq_order.trans)
      then show ?thesis using Some True by simp
    next
      case False
      have "subseq (unused_tokens opts toks) toks" using 2 Some False by simp
      then have "subseq (unused_tokens opts toks) (tok # toks)" by (rule list_emb_Cons)
      then show ?thesis using Some False by simp
    qed
  qed
qed

lemma unused_tokens_unselected:
  "tok \<in> set (unused_tokens opts toks) \<Longrightarrow> selected_option opts tok = None"
proof (induction opts toks rule: unused_tokens.induct)
  case (1 opts)
  then show ?case by simp
next
  case (2 opts t toks)
  then show ?case
    by (cases "selected_option opts t") (auto split: if_splits)
qed

lemma parse_loop_no_options:
  assumes "\<forall>t \<in> set (drop argi args). selected_option opts t = None"
  shows "parse_loop opts args argi mem non_args = Inr (mem, non_args @ drop argi args)"
  using assms
proof (induction "length args - argi" arbitrary: argi non_args)
  case 0
  then show ?case by (subst parse_loop.simps) simp
next
  case (Suc n)
  then have lt: "argi < length args" by simp
  have d: "drop argi args = args ! argi # drop (argi + 1) args"
    using lt by (simp add: Cons_nth_drop_Suc)
  have none: "selected_option opts (args ! argi) = None"
    using Suc.prems d by (metis list.set_intros(1))
  have rest: "\<forall>t \<in> set (drop (argi + 1) args). selected_option opts t = None"
    using Suc.prems d by (metis list.set_intros(2))
  have ol: "opts_loop opts args argi mem = Inr (False, argi, mem)"
    by (simp add: opts_loop_selected [OF lt] none)
  have "parse_loop opts args argi mem non_args
          = parse_loop opts args (argi + 1) mem (non_args @ [args ! argi])"
    using lt ol by (subst parse_loop.simps) simp
  also have "\<dots> = Inr (mem, (non_args @ [args ! argi]) @ drop (argi + 1) args)"
    using Suc.hyps(2) by (intro Suc.hyps(1) rest) simp
  finally show ?case by (simp add: d)
qed

lemma store_multi_idx:
  "idx_vals (fold (\<lambda>p m. m\<lparr>idx_vals := (idx_vals m)(p := v)\<rparr>) vals mem) a
     = (if a \<in> set vals then v else idx_vals mem a)"
  by (induction vals arbitrary: mem) auto

lemma idx_val_32:
  "OptionBase_idx_val [''-block_size'', ''32'', ''-foo'', ''bar''] 1 = Inr (32, 2)"
  by (simp add: OptionBase_idx_val_def c_str_def strtoll_def strip_sign_def detect_base_def
      hex_prefix_def is_digit_in_def digit_val_def magnitude_def digit_of_def isspace_def
      LLONG_MAX_def LLONG_MIN_def)

lemma set_args_s6:
  "set_args ''-block_size 32 -foo bar'' [] = [''-block_size'', ''32'', ''-foo'', ''bar'']"
  by (simp add: set_args_def isspace_def)

lemma apply_s6:
  assumes b: "selected_option opts ''-block_size'' = Some (MultiIdxOption ''block_size'' dims)"
    and f: "selected_option opts ''-foo'' = None" and r: "selected_option opts ''bar'' = None"
  shows "apply_command_line_options opts mem ''-block_size 32 -foo bar''
           = Inr (store_value (MultiIdxOption ''block_size'' dims) 32 mem, ''-foo bar'')"
proof -
  let ?args = "[''-block_size'', ''32'', ''-foo'', ''bar'']"
  let ?opt = "MultiIdxOption ''block_size'' dims"
  let ?mem1 = "store_value ?opt 32 mem"
  have lt: "0 < length ?args" by simp
  have m: "matches ?opt (?args ! 0)" by simp
  have "check_arg ?opt ?args 0 mem = Inr (True, 2, ?mem1)"
    using check_arg_value_match [OF lt m, of mem] idx_val_32 by simp
  then have ol: "opts_loop opts ?args 0 mem = Inr (True, 2, ?mem1)"
    using opts_loop_selected [OF lt, of opts mem] b by simp
  have "\<forall>t \<in> set (drop 2 ?args). selected_option opts t = None"
    using f r by simp
  then have "parse_loop opts ?args 2 ?mem1 [] = Inr (?mem1, [] @ drop 2 ?args)"
    by (rule parse_loop_no_options)
  then have "parse_loop opts ?args 0 mem [] = Inr (?mem1, [''-foo'', ''bar''])"
    using ol by (subst parse_loop.simps) simp
  then show ?thesis
    by (simp add: apply_command_line_options_def set_args_s6 parse_args_def)
qed

text \<open>
  C1.  When \<open>parse_args\<close> returns, the unused arguments are the tokens of the input with
  every token that selects a registered option removed, together with the value token
  of an option that takes one: the other tokens are returned unmodified and in their
  original relative order, and none of them matches a registered option.  A list of
  tokens none of which matches an option is returned whole, with the settings
  unchanged.  The string that \<open>apply_command_line_options\<close> returns is made of the
  unused tokens of its argument string.  With \<open>block_size\<close> registered as a \<open>MultiIdxOption\<close> on the block sizes
  of the domain dimensions, and \<open>-foo\<close> and \<open>bar\<close> matching no option,
  \<open>apply_command_line_options("-block_size 32 -foo bar")\<close> sets every one of these
  block sizes to 32 and returns \<open>"-foo bar"\<close>.
\<close>

theorem parse_args_unused:
  "(parse_args opts args mem = Inr (mem', unused) \<longrightarrow>
      unused = unused_tokens opts args \<and> subseq unused args
      \<and> (\<forall>t \<in> set unused. selected_option opts t = None))
   \<and> ((\<forall>t \<in> set args. selected_option opts t = None) \<longrightarrow>
        parse_args opts args mem = Inr (mem, args))
   \<and> (apply_command_line_options opts mem arg_string = Inr (mem', rem) \<longrightarrow>
        rem = join_args (unused_tokens opts (set_args arg_string [])))
   \<and> (selected_option opts ''-block_size'' = Some (MultiIdxOption ''block_size'' dims)
        \<and> selected_option opts ''-foo'' = None \<and> selected_option opts ''bar'' = None \<longrightarrow>
        (\<exists>mem1. apply_command_line_options opts mem ''-block_size 32 -foo bar''
                   = Inr (mem1, ''-foo bar'')
               \<and> (\<forall>p \<in> set dims. idx_vals mem1 p = 32)))"
proof (intro conjI impI)
  assume p: "parse_args opts args mem = Inr (mem', unused)"
  then show u: "unused = unused_tokens opts args"
    using parse_loop_unused [of opts args 0 mem "[]" mem' unused]
    by (simp add: parse_args_def)
  show "subseq unused args" unfolding u by (rule unused_tokens_subseq)
  show "\<forall>t \<in> set unused. selected_option opts t = None"
    unfolding u using unused_tokens_unselected by blast
next
  assume "\<forall>t \<in> set args. selected_option opts t = None"
  then show "parse_args opts args mem = Inr (mem, args)"
    using parse_loop_no_options [of 0 args opts mem "[]"] by (simp add: parse_args_def)
next
  assume "apply_command_line_options opts mem arg_string = Inr (mem', rem)"
  then obtain unused' where p: "parse_args opts (set_args arg_string []) mem = Inr (mem', unused')"
    and r: "rem = join_args unused'"
    by (auto simp: apply_command_line_options_def split: sum.splits)
  have "unused' = unused_tokens opts (set_args arg_string [])"
    using parse_loop_unused [of opts "set_args arg_string []" 0 mem "[]" mem' unused'] p
    by (simp add: parse_args_def)
  then show "rem = join_args (unused_tokens opts (set_args arg_string []))" using r by simp
next
  assume a: "selected_option opts ''-block_size'' = Some (MultiIdxOption ''block_size'' dims)
        \<and> selected_option opts ''-foo'' = None \<and> selected_option opts ''bar'' = None"
  let ?mem1 = "store_value (MultiIdxOption ''block_size'' dims) 32 mem"
  have "apply_command_line_options opts mem ''-block_size 32 -foo bar''
          = Inr (?mem1, ''-foo bar'')"
    using a by (intro apply_s6) simp_all
  moreover have "\<forall>p \<in> set dims. idx_vals ?mem1 p = 32"
    by (simp add: store_multi_idx)
  ultimately show "\<exists>mem1. apply_command_line_options opts mem ''-block_size 32 -foo bar''
                   = Inr (mem1, ''-foo bar'')
               \<and> (\<forall>p \<in> set dims. idx_vals mem1 p = 32)"
    by blast
qed

theorem parse_args_unused_witness:
  "(\<exists>mem1. apply_command_line_options
             [(''block_size'', MultiIdxOption ''block_size'' [10, 11, 12]), (''v'', BoolOption ''v'' 0)]
             settings_mem_init ''-block_size 32 -foo bar'' = Inr (mem1, ''-foo bar'')
          \<and> idx_vals mem1 10 = 32 \<and> idx_vals mem1 11 = 32 \<and> idx_vals mem1 12 = 32)
   \<and> parse_args
         [(''block_size'', MultiIdxOption ''block_size'' [10, 11, 12]), (''v'', BoolOption ''v'' 0)]
         [''-foo'', ''bar''] settings_mem_init = Inr (settings_mem_init, [''-foo'', ''bar''])
   \<and> unused_tokens
         [(''block_size'', MultiIdxOption ''block_size'' [10, 11, 12]), (''v'', BoolOption ''v'' 0)]
         [''-foo'', ''bar''] = [''-foo'', ''bar'']"
proof -
  let ?opts = "[(''block_size'', MultiIdxOption ''block_size'' [10, 11, 12]), (''v'', BoolOption ''v'' 0)]"
  have b: "selected_option ?opts ''-block_size'' = Some (MultiIdxOption ''block_size'' [10, 11, 12])"
    and f: "selected_option ?opts ''-foo'' = None" and r: "selected_option ?opts ''bar'' = None"
    by (simp_all add: selected_option_def)
  note th = parse_args_unused [of ?opts "[''-foo'', ''bar'']" settings_mem_init
      settings_mem_init "[''-foo'', ''bar'']" "''-block_size 32 -foo bar''" "''-foo bar''"
      "[10, 11, 12]"]
  have n: "\<forall>t \<in> set [''-foo'', ''bar'']. selected_option ?opts t = None"
    using f r by simp
  have p: "parse_args ?opts [''-foo'', ''bar''] settings_mem_init
             = Inr (settings_mem_init, [''-foo'', ''bar''])"
    using th n by blast
  have u: "unused_tokens ?opts [''-foo'', ''bar''] = [''-foo'', ''bar'']"
    using th p by metis
  obtain mem1 where m: "apply_command_line_options ?opts settings_mem_init
        ''-block_size 32 -foo bar'' = Inr (mem1, ''-foo bar'')"
    and i: "\<forall>p \<in> set [10, 11, 12]. idx_vals mem1 p = 32"
    using th b f r by blast
  have j: "idx_vals mem1 10 = 32" "idx_vals mem1 11 = 32" "idx_vals mem1 12 = 32"
    using i by simp_all
  show ?thesis
    by (intro conjI exI [of _ mem1]) (fact m j p u)+
qed

lemma parse_loop_end:
  "length args \<le> argi \<Longrightarrow> parse_loop opts args argi mem non_args = Inr (mem, non_args)"
  by (subst parse_loop.simps) simp

lemma parse_loop_step:
  assumes "argi < length args"
  shows "parse_loop opts args argi mem non_args =
     (case selected_option opts (args ! argi) of
        None \<Rightarrow> parse_loop opts args (argi + 1) mem (non_args @ [args ! argi])
      | Some opt \<Rightarrow>
          if takes_value opt then
            (case OptionBase_idx_val args (argi + 1) of
               Inl e \<Rightarrow> Inl (e, mem)
             | Inr (v, argi2) \<Rightarrow>
                 parse_loop opts args (argi + 2) (store_value opt v mem) non_args)
          else parse_loop opts args (argi + 1) (store_flag opt (args ! argi) mem) non_args)"
proof (cases "selected_option opts (args ! argi)")
  case None
  then have "opts_loop opts args argi mem = Inr (False, argi, mem)"
    by (simp add: opts_loop_selected [OF assms])
  then show ?thesis using assms None by (subst parse_loop.simps) simp
next
  case (Some opt)
  have m: "matches opt (args ! argi)" using Some by (rule selected_option_matches)
  have ol: "opts_loop opts args argi mem = check_arg opt args argi mem"
    by (simp add: opts_loop_selected [OF assms] Some)
  show ?thesis
  proof (cases "takes_value opt")
    case False
    then obtain name val where o: "opt = BoolOption name val" by (cases opt) auto
    have "opts_loop opts args argi mem
            = Inr (True, argi + 1, store_flag opt (args ! argi) mem)"
      using ol check_arg_bool_match [OF assms m [unfolded o]] o by simp
    then show ?thesis using assms Some False by (subst parse_loop.simps) simp
  next
    case True
    note ca = check_arg_value_match [OF assms m True, of mem]
    show ?thesis
    proof (cases "OptionBase_idx_val args (argi + 1)")
      case (Inl e)
      then show ?thesis using assms Some True ol ca by (subst parse_loop.simps) simp
    next
      case (Inr r)
      obtain v argi2 where r: "r = (v, argi2)" by (cases r)
      have "argi2 = argi + 2" using idx_val_Inr [OF Inr [unfolded r]] by simp
      then show ?thesis
        using assms Some True ol ca Inr r by (subst parse_loop.simps) simp
    qed
  qed
qed

lemma idx_val_append:
  assumes "argi < length pre"
  shows "OptionBase_idx_val (pre @ ys) argi = OptionBase_idx_val pre argi"
proof -
  have e1: "(pre @ ys) ! argi = pre ! argi" using assms by (simp add: nth_append)
  have "argi - 1 < length pre" using assms by arith
  then have e2: "(pre @ ys) ! (argi - 1) = pre ! (argi - 1)"
    by (simp only: nth_append if_True)
  have e3: "(argi \<ge> length (pre @ ys)) = (argi \<ge> length pre)" using assms by simp
  show ?thesis unfolding OptionBase_idx_val_def e1 e2 e3 ..
qed

lemma parse_loop_append:
  assumes "parse_loop opts pre argi m acc = Inr (mem, na)" and "argi \<le> length pre"
  shows "parse_loop opts (pre @ ys) argi m acc = parse_loop opts (pre @ ys) (length pre) mem na"
  using assms
proof (induction "length pre - argi" arbitrary: argi m acc rule: less_induct)
  case less
  show ?case
  proof (cases "argi < length pre")
    case False
    then have e: "argi = length pre" using less.prems(2) by simp
    then have "parse_loop opts pre argi m acc = Inr (m, acc)"
      by (subst parse_loop.simps) simp
    then show ?thesis using less.prems(1) e by simp
  next
    case True
    then have lt': "argi < length (pre @ ys)" by simp
    have tok: "(pre @ ys) ! argi = pre ! argi" using True by (simp add: nth_append)
    note s1 = parse_loop_step [OF True, of opts m acc]
    note s2 = parse_loop_step [OF lt', of opts m acc, unfolded tok]
    show ?thesis
    proof (cases "selected_option opts (pre ! argi)")
      case None
      have p: "parse_loop opts pre (argi + 1) m (acc @ [pre ! argi]) = Inr (mem, na)"
        using less.prems(1) s1 None by simp
      have "parse_loop opts (pre @ ys) (argi + 1) m (acc @ [pre ! argi])
              = parse_loop opts (pre @ ys) (length pre) mem na"
        using True by (intro less.hyps p) auto
      then show ?thesis using s2 None by simp
    next
      case (Some opt)
      show ?thesis
      proof (cases "takes_value opt")
        case False
        have p: "parse_loop opts pre (argi + 1) (store_flag opt (pre ! argi) m) acc
                   = Inr (mem, na)"
          using less.prems(1) s1 Some False by simp
        have "parse_loop opts (pre @ ys) (argi + 1) (store_flag opt (pre ! argi) m) acc
                = parse_loop opts (pre @ ys) (length pre) mem na"
          using True by (intro less.hyps p) auto
        then show ?thesis using s2 Some False by simp
      next
        case tv: True
        show ?thesis
        proof (cases "OptionBase_idx_val pre (argi + 1)")
          case (Inl e)
          then show ?thesis using less.prems(1) s1 Some tv by simp
        next
          case (Inr r)
          obtain v argi2 where r: "r = (v, argi2)" by (cases r)
          have a1: "argi + 1 < length pre" using idx_val_Inr [OF Inr [unfolded r]] by simp
          have iv: "OptionBase_idx_val (pre @ ys) (argi + 1) = Inr (v, argi2)"
            using idx_val_append [OF a1, of ys] Inr r by simp
          have p: "parse_loop opts pre (argi + 2) (store_value opt v m) acc = Inr (mem, na)"
            using less.prems(1) s1 Some tv Inr r by simp
          have "parse_loop opts (pre @ ys) (argi + 2) (store_value opt v m) acc
                  = parse_loop opts (pre @ ys) (length pre) mem na"
            using a1 by (intro less.hyps p) auto
          then show ?thesis using s2 Some tv iv by simp
        qed
      qed
    qed
  qed
qed

lemma strtoll_whole_string:
  assumes "strtoll s = (v, [])" and "s \<noteq> []"
  shows "is_integer_literal s"
proof -
  obtain neg s2 where ss: "strip_sign (dropWhile isspace s) = (neg, s2)"
    by (cases "strip_sign (dropWhile isspace s)")
  obtain base s3 where db: "detect_base s2 = (base, s3)" by (cases "detect_base s2")
  let ?ds = "takeWhile (is_digit_in base) s3"
  have ne: "?ds \<noteq> []"
  proof
    assume "?ds = []"
    then have "strtoll s = (0, s)" by (simp add: strtoll_def ss db)
    then show False using assms by simp
  qed
  then have s3: "s3 \<noteq> []" by auto
  have "dropWhile (is_digit_in base) s3 = []"
    using assms(1) ne by (simp add: strtoll_def ss db Let_def split: if_splits)
  then have "\<forall>c \<in> set s3. is_digit_in base c" by (simp add: dropWhile_eq_Nil_conv)
  then have all: "list_all (is_digit_in base) s3" by (simp add: list_all_iff)
  have body: "snd (strip_sign (dropWhile isspace s)) = s2" by (simp add: ss)
  show ?thesis
  proof (cases "hex_prefix s2")
    case True
    then obtain x h r where s2: "s2 = CHR ''0'' # x # h # r"
      and x: "x = CHR ''x'' \<or> x = CHR ''X''"
      by (auto simp: hex_prefix_def split: list.splits)
    have "base = 16" and "s3 = drop 2 s2" using db True by (simp_all add: detect_base_def)
    then have "list_all (is_digit_in 16) (drop 2 s2)" and "drop 2 s2 \<noteq> []"
      using all s3 by simp_all
    moreover have "take 2 s2 = [CHR ''0'', x]" by (simp add: s2)
    ultimately show ?thesis using x s2 unfolding is_integer_literal_def body Let_def by blast
  next
    case False
    show ?thesis
    proof (cases "s2 \<noteq> [] \<and> hd s2 = CHR ''0''")
      case True
      then have "base = 8" and "s3 = s2" using db False by (simp_all add: detect_base_def)
      then show ?thesis using all True unfolding is_integer_literal_def body Let_def by blast
    next
      case nz: False
      then have "base = 10" and e: "s3 = s2"
        using db False by (auto simp: detect_base_def split: if_splits)
      moreover have "hd s2 \<noteq> CHR ''0''" using nz s3 e by simp
      ultimately show ?thesis using all s3 unfolding is_integer_literal_def body Let_def by blast
    qed
  qed
qed

lemma idx_val_rejected:
  assumes "argi \<ge> length args \<or> args ! argi = []
           \<or> (c_str (args ! argi) \<noteq> [] \<and> \<not> is_integer_literal (c_str (args ! argi)))"
  shows "\<exists>e. OptionBase_idx_val args argi = Inl e"
proof (cases "argi \<ge> length args \<or> args ! argi = []")
  case True
  then show ?thesis by (auto simp: OptionBase_idx_val_def)
next
  case False
  then have c: "c_str (args ! argi) \<noteq> []" "\<not> is_integer_literal (c_str (args ! argi))"
    using assms by auto
  obtain v endptr where st: "strtoll (c_str (args ! argi)) = (v, endptr)"
    by (cases "strtoll (c_str (args ! argi))")
  have "endptr \<noteq> []" using strtoll_whole_string [of "c_str (args ! argi)" v] st c by auto
  then show ?thesis using False st by (simp add: OptionBase_idx_val_def)
qed

text \<open>
  C8, as stated: with the name of an integer-valued option present and its value token
  not parseable as an integer, the call fails.  The value is read by \<open>strtoll\<close> from
  \<open>c_str()\<close>, which ends at the first NUL character of the token, while the test for an
  empty value is on the length of the token.  The token \<open>5\<close>, NUL, \<open>x\<close> is not an
  integer and is accepted as 5; the token that is a single NUL is not an integer and is
  accepted as 0.  Both calls return normally and install the value.
\<close>

theorem parse_args_nul_value_counterexample:
  "parse_args [(''b'', IdxOption ''b'' 0)] [''-b'', [CHR 0x35, CHR 0x00, CHR 0x78]]
       settings_mem_init
     = Inr (settings_mem_init\<lparr>idx_vals := (idx_vals settings_mem_init)(0 := 5)\<rparr>, [])
   \<and> \<not> is_integer_literal [CHR 0x35, CHR 0x00, CHR 0x78]
   \<and> parse_args [(''b'', IdxOption ''b'' 0)] [''-b'', [CHR 0x00]] settings_mem_init
     = Inr (settings_mem_init\<lparr>idx_vals := (idx_vals settings_mem_init)(0 := 0)\<rparr>, [])
   \<and> \<not> is_integer_literal [CHR 0x00]"
proof -
  let ?opts = "[(''b'', IdxOption ''b'' 0)]"
  have sel: "selected_option ?opts ''-b'' = Some (IdxOption ''b'' 0)"
    by (simp add: selected_option_def)
  have v5: "OptionBase_idx_val [''-b'', [CHR 0x35, CHR 0x00, CHR 0x78]] (0 + 1) = Inr (5, 2)"
    by (simp add: OptionBase_idx_val_def c_str_def strtoll_def strip_sign_def detect_base_def
        hex_prefix_def is_digit_in_def digit_val_def magnitude_def digit_of_def isspace_def
        LLONG_MAX_def LLONG_MIN_def)
  have v0: "OptionBase_idx_val [''-b'', [CHR 0x00]] (0 + 1) = Inr (0, 2)"
    by (simp add: OptionBase_idx_val_def c_str_def strtoll_def strip_sign_def detect_base_def
        hex_prefix_def is_digit_in_def digit_val_def magnitude_def digit_of_def isspace_def
        LLONG_MAX_def LLONG_MIN_def)
  have "parse_loop ?opts [''-b'', [CHR 0x35, CHR 0x00, CHR 0x78]] 0 settings_mem_init []
          = Inr (store_value (IdxOption ''b'' 0) 5 settings_mem_init, [])"
    using parse_loop_step [of 0 "[''-b'', [CHR 0x35, CHR 0x00, CHR 0x78]]" ?opts
        settings_mem_init "[]"] sel v5
    by (simp add: parse_loop_end)
  moreover
  have "parse_loop ?opts [''-b'', [CHR 0x00]] 0 settings_mem_init []
          = Inr (store_value (IdxOption ''b'' 0) 0 settings_mem_init, [])"
    using parse_loop_step [of 0 "[''-b'', [CHR 0x00]]" ?opts settings_mem_init "[]"] sel v0
    by (simp add: parse_loop_end)
  moreover have "\<not> is_integer_literal [CHR 0x35, CHR 0x00, CHR 0x78]"
    by (simp add: is_integer_literal_def strip_sign_def isspace_def is_digit_in_def
        digit_val_def)
  moreover have "\<not> is_integer_literal [CHR 0x00]"
    by (simp add: is_integer_literal_def strip_sign_def isspace_def is_digit_in_def
        digit_val_def)
  ultimately show ?thesis by (simp add: parse_args_def)
qed

text \<open>
  C8, amended.  When the scan of \<open>parse_args\<close> reaches a token that selects an
  integer-valued option (the tokens before it have been parsed without error), and the
  value token is missing, is empty, or has a C string -- the characters before its first
  NUL -- that is not empty and not an integer literal, then the call fails with an
  exception, and the store at the exception is the one left by the tokens before: no
  value is installed for the option.  The same holds for
  \<open>apply_command_line_options\<close> on a string with these tokens.
\<close>

theorem parse_args_bad_value:
  assumes pre: "parse_args opts pre mem0 = Inr (mem, non_args)"
    and sel: "selected_option opts tok = Some opt" and tv: "takes_value opt"
    and bad: "rest = [] \<or> hd rest = []
              \<or> (c_str (hd rest) \<noteq> [] \<and> \<not> is_integer_literal (c_str (hd rest)))"
  shows "(\<exists>e. parse_args opts (pre @ tok # rest) mem0 = Inl (e, mem))
         \<and> (\<forall>args. set_args args [] = pre @ tok # rest \<longrightarrow>
               (\<exists>e. apply_command_line_options opts mem0 args = Inl (e, mem)))"
proof -
  let ?args = "pre @ tok # rest"
  have a: "parse_args opts ?args mem0 = parse_loop opts ?args (length pre) mem non_args"
    using parse_loop_append [of opts pre 0 mem0 "[]" mem non_args "tok # rest"] pre
    by (simp add: parse_args_def)
  have lt: "length pre < length ?args" by simp
  have t: "?args ! length pre = tok" by simp
  have "length pre + 1 \<ge> length ?args \<or> ?args ! (length pre + 1) = []
        \<or> (c_str (?args ! (length pre + 1)) \<noteq> []
            \<and> \<not> is_integer_literal (c_str (?args ! (length pre + 1))))"
  proof (cases rest)
    case Nil
    then show ?thesis by simp
  next
    case (Cons r rs)
    then have "?args ! (length pre + 1) = hd rest" by (simp add: nth_append)
    then show ?thesis using bad Cons by auto
  qed
  then obtain e where "OptionBase_idx_val ?args (length pre + 1) = Inl e"
    using idx_val_rejected by blast
  then have "parse_loop opts ?args (length pre) mem non_args = Inl (e, mem)"
    using parse_loop_step [OF lt, of opts mem non_args] sel tv by (simp add: t)
  then have p: "parse_args opts ?args mem0 = Inl (e, mem)" using a by simp
  then have "\<forall>args. set_args args [] = ?args \<longrightarrow>
               apply_command_line_options opts mem0 args = Inl (e, mem)"
    by (simp add: apply_command_line_options_def)
  then show ?thesis using p by blast
qed

theorem parse_args_bad_value_witness:
  "\<exists>e. parse_args [(''b'', IdxOption ''b'' 0), (''v'', BoolOption ''v'' 7)]
          [''-v'', ''x'', ''-b'', ''12abc''] settings_mem_init
        = Inl (e, settings_mem_init\<lparr>bool_vals := (bool_vals settings_mem_init)(7 := True)\<rparr>)
      \<and> apply_command_line_options [(''b'', IdxOption ''b'' 0), (''v'', BoolOption ''v'' 7)]
          settings_mem_init ''-v x -b 12abc''
        = Inl (e, settings_mem_init\<lparr>bool_vals := (bool_vals settings_mem_init)(7 := True)\<rparr>)"
proof -
  let ?opts = "[(''b'', IdxOption ''b'' 0), (''v'', BoolOption ''v'' 7)]"
  let ?mem = "settings_mem_init\<lparr>bool_vals := (bool_vals settings_mem_init)(7 := True)\<rparr>"
  have sv: "selected_option ?opts ''-v'' = Some (BoolOption ''v'' 7)"
    and sx: "selected_option ?opts ''x'' = None"
    and sb: "selected_option ?opts ''-b'' = Some (IdxOption ''b'' 0)"
    by (simp_all add: selected_option_def)
  have "parse_loop ?opts [''-v'', ''x''] 1 ?mem [] = Inr (?mem, [] @ drop 1 [''-v'', ''x''])"
    by (rule parse_loop_no_options) (simp add: sx)
  then have pre: "parse_args ?opts [''-v'', ''x''] settings_mem_init = Inr (?mem, [''x''])"
    using parse_loop_step [of 0 "[''-v'', ''x'']" ?opts settings_mem_init "[]"] sv
    by (simp add: parse_args_def)
  have tv: "takes_value (IdxOption ''b'' 0)" by simp
  have bad: "[''12abc''] = [] \<or> hd [''12abc''] = []
              \<or> (c_str (hd [''12abc'']) \<noteq> [] \<and> \<not> is_integer_literal (c_str (hd [''12abc''])))"
    by (simp add: c_str_def is_integer_literal_def strip_sign_def isspace_def is_digit_in_def
        digit_val_def)
  have s: "set_args ''-v x -b 12abc'' [] = [''-v'', ''x''] @ ''-b'' # [''12abc'']"
    by (simp add: set_args_def isspace_def)
  note th = parse_args_bad_value [OF pre sb tv bad]
  from th obtain e where e: "parse_args ?opts ([''-v'', ''x''] @ ''-b'' # [''12abc''])
      settings_mem_init = Inl (e, ?mem)"
    by blast
  then have "apply_command_line_options ?opts settings_mem_init ''-v x -b 12abc'' = Inl (e, ?mem)"
    by (simp add: apply_command_line_options_def s)
  then show ?thesis using e by auto
qed

end
